theory Spec2Isabelle
  imports Complex_Main "HOL-Library.Char_ord" "HOL-Library.List_Lexorder" "HOL-Library.Sublist"
begin

section \<open>Data model\<close>

text \<open>
  Strings are lists of code units below 256; every literal of the source is ASCII.
  The order on strings is the lexicographic order on code units, which is the order
  of the default \<^verbatim>\<open>Array.prototype.sort\<close>.
\<close>

datatype AppStatus = Idle | Loading_file | File_loaded | Translating | Success | Error

datatype TranslationMode = Short | Full | Bold | In_depth

text \<open>A binary payload is opaque: only its identity matters.\<close>

type_synonym blob = nat

text \<open>
  A JavaScript error value: what \<^verbatim>\<open>toString()\<close> prints and its \<^verbatim>\<open>message\<close> property
  (\<open>None\<close> when the property is undefined).
\<close>

datatype js_error = JsError (toString: string) (message: "string option")

definition new_Error :: "string \<Rightarrow> js_error" where
  "new_Error m = JsError (''Error: '' @ m) (Some m)"

text \<open>
  What happens when page \<open>i\<close> of a PDF document is drawn on a canvas and encoded:
  \<^verbatim>\<open>pdf.getPage(i)\<close> may reject, \<^verbatim>\<open>canvas.getContext('2d')\<close> may be null,
  \<^verbatim>\<open>page.render(...).promise\<close> may reject, \<^verbatim>\<open>canvas.toBlob\<close> may call back with null.
\<close>

datatype page_render =
    GetPageRejects js_error
  | NoContext
  | RenderRejects js_error
  | NoBlob
  | Rendered blob

text \<open>
  A document opened by pdf.js: its declared page count and, for a page index, a viewport
  scale and an encoding type, the outcome of rendering that page.
\<close>

record pdf =
  numPages :: nat
  renderPage :: "nat \<Rightarrow> rat \<Rightarrow> string \<Rightarrow> page_render"

text \<open>
  An entry of an archive: whether it is a folder, and the payload that
  \<^verbatim>\<open>async('blob')\<close> resolves to (\<open>None\<close> when it rejects, the data being unreadable).
\<close>

record zip_entry =
  dir :: bool
  data :: "blob option"

text \<open>\<^verbatim>\<open>zip.files\<close>: the entries of an archive keyed by name, in key order.\<close>

type_synonym zip = "(string \<times> zip_entry) list"

text \<open>What the bytes of a file are: an archive JSZip can load, a document pdf.js can open, or neither.\<close>

datatype content = Bytes blob | ZipArchive zip | PdfDocument pdf

record File =
  name :: string
  type :: string
  content :: content

record Page =
  pageNum :: nat
  pageFile :: File
  previewUrl :: nat
  translation :: "string list option"
  isTranslating :: bool
  error :: "string option"

text \<open>The signals of the component.\<close>

record AppComponent =
  status :: AppStatus
  uploadedFile :: "File option"
  fileName :: string
  pages :: "Page list"
  totalPageCount :: nat
  translatedPageCount :: nat
  wikiUrl :: string
  translationMode :: TranslationMode
  isApiKeyModalVisible :: bool
  apiKeyInput :: string
  errorMessage :: string
  isDragging :: bool

text \<open>
  What a \<^verbatim>\<open>FileReader\<close> does with a file: creating the reader or starting the read throws,
  or the read ends with \<^verbatim>\<open>reader.result\<close> a data URL, or it ends with \<^verbatim>\<open>reader.result\<close>
  null (the read failed).
\<close>

datatype read_result = ReaderThrows js_error | ReadEnds "string option"

text \<open>
  The component together with the part of its environment the code acts on:
  the object URLs that \<^verbatim>\<open>URL.createObjectURL\<close> has handed out and that are still live
  (a URL stays live until \<^verbatim>\<open>URL.revokeObjectURL\<close> is called on it), whether the global
  \<^verbatim>\<open>pdfjsLib\<close> is defined, what reading a file as a data URL gives, and the invocations
  of the translation client so far.
\<close>

record World = AppComponent +
  objectUrls :: "nat list"
  nextObjectUrl :: nat
  pdfjsLib :: bool
  readAsDataURL :: "File \<Rightarrow> read_result"
  clientCalls :: "(File \<times> string \<times> TranslationMode) list"

text \<open>
  How an awaited call ends: it resolves with a value, it throws (a rejected promise), or
  its promise never settles and the caller waits forever.
\<close>

datatype 'a async = Resolved 'a | Thrown js_error | Pending

text \<open>The value a promise is rejected with: null, undefined, or an error value.\<close>

datatype rejection = RejectNull | RejectUndefined | RejectWith js_error

text \<open>
  The answer of the generative model to one request: a response, of which the code reads
  the \<^verbatim>\<open>text\<close> property (\<open>None\<close> when it is undefined, the response having no text part),
  or a rejection.
\<close>

datatype GenResult = Response "string option" | Rejected rejection

text \<open>
  A request: the inline image (its base64 data, undefined when the data URL has no comma,
  and its MIME type), the context URL and the mode; the prompt is a fixed text around the
  context URL and the instruction of the mode.
\<close>

type_synonym request = "(string option \<times> string) \<times> string \<times> TranslationMode"

text \<open>
  The translation service object. \<open>genAI\<close> is null or the client; the client is
  represented by what the model answers to the request of the \<open>n\<close>-th invocation
  (counted from 0).
\<close>

record GeminiService =
  genAI :: "(nat \<Rightarrow> request \<Rightarrow> GenResult) option"
  apiKeySignal :: string

section \<open>String primitives\<close>

definition isWhiteSpace :: "char \<Rightarrow> bool" where
  "isWhiteSpace c \<longleftrightarrow> (of_char c :: nat) \<in> {9, 10, 11, 12, 13, 32, 160}"

definition trim :: "string \<Rightarrow> string" where
  "trim s = rev (dropWhile isWhiteSpace (rev (dropWhile isWhiteSpace s)))"

definition asciiLower :: "char \<Rightarrow> char" where
  "asciiLower c = (let n = (of_char c :: nat) in if 65 \<le> n \<and> n \<le> 90 then char_of (n + 32) else c)"

definition toLowerChar :: "char \<Rightarrow> char" where
  "toLowerChar c =
     (let n = (of_char c :: nat)
      in if (65 \<le> n \<and> n \<le> 90) \<or> (192 \<le> n \<and> n \<le> 222 \<and> n \<noteq> 215) then char_of (n + 32) else c)"

definition toLowerCase :: "string \<Rightarrow> string" where
  "toLowerCase s = map toLowerChar s"

text \<open>\<^verbatim>\<open>s.split(c)\<close>: the pieces of \<open>s\<close> between occurrences of \<open>c\<close>; never empty.\<close>

fun split :: "char \<Rightarrow> string \<Rightarrow> string list" where
  "split c [] = [[]]"
| "split c (x # xs) =
     (if x = c then [] # split c xs
      else (case split c xs of [] \<Rightarrow> [[x]] | w # ws \<Rightarrow> (x # w) # ws))"

text \<open>\<^verbatim>\<open>xs.pop()\<close> as a value: the last element, undefined on an empty array.\<close>

definition pop :: "'a list \<Rightarrow> 'a option" where
  "pop xs = (if xs = [] then None else Some (last xs))"

fun showNat :: "nat \<Rightarrow> string" where
  "showNat n =
     (if n < 10 then [char_of (48 + n)]
      else showNat (n div 10) @ [char_of (48 + n mod 10)])"

declare showNat.simps [simp del]

section \<open>The component\<close>

subsection \<open>Reset\<close>

definition reset :: "World \<Rightarrow> World" where
  "reset w = w\<lparr>status := Idle,
               uploadedFile := None,
               fileName := '''',
               pages := [],
               totalPageCount := 0,
               translatedPageCount := 0,
               wikiUrl := '''',
               translationMode := In_depth,
               errorMessage := ''''\<rparr>"

subsection \<open>Browser and library primitives\<close>

text \<open>\<^verbatim>\<open>URL.createObjectURL\<close>: a fresh URL, live from now on.\<close>

definition createObjectURL :: "World \<Rightarrow> nat \<times> World" where
  "createObjectURL w =
     (nextObjectUrl w,
      w\<lparr>objectUrls := objectUrls w @ [nextObjectUrl w], nextObjectUrl := Suc (nextObjectUrl w)\<rparr>)"

text \<open>\<^verbatim>\<open>JSZip.loadAsync(file)\<close> rejects unless the bytes are an archive.\<close>

definition JSZip_loadAsync :: "File \<Rightarrow> js_error + zip" where
  "JSZip_loadAsync f =
     (case content f of ZipArchive z \<Rightarrow> Inr z
      | _ \<Rightarrow> Inl (new_Error ''Can't find end of central directory : is this a zip file ?''))"

text \<open>\<^verbatim>\<open>Object.keys(zip.files)\<close>: each key once. The order of the keys is immaterial below,
  since the only use sorts them.\<close>

definition Object_keys :: "zip \<Rightarrow> string list" where
  "Object_keys z = remdups (map fst z)"

text \<open>\<^verbatim>\<open>zip.file(name)\<close>: the entry of that name unless it is a folder, else null.\<close>

definition zip_file :: "zip \<Rightarrow> string \<Rightarrow> zip_entry option" where
  "zip_file z n = (case map_of z n of None \<Rightarrow> None | Some e \<Rightarrow> if dir e then None else Some e)"

text \<open>\<^verbatim>\<open>pdfjsLib.getDocument(url).promise\<close> rejects unless the bytes are a document.\<close>

definition getDocument :: "File \<Rightarrow> js_error + pdf" where
  "getDocument f =
     (case content f of PdfDocument d \<Rightarrow> Inr d
      | _ \<Rightarrow> Inl (new_Error ''Invalid PDF structure.''))"

text \<open>The test \<^verbatim>\<open>/\.(jpe?g|png|gif|webp)$/i\<close>; the flag \<^verbatim>\<open>i\<close> folds the ASCII letters only.\<close>

definition isImageName :: "string \<Rightarrow> bool" where
  "isImageName n =
     (\<exists>e \<in> set [''.jpg'', ''.jpeg'', ''.png'', ''.gif'', ''.webp'']. suffix e (map asciiLower n))"

subsection \<open>Archive extraction\<close>

definition getImageMimeType :: "string \<Rightarrow> string" where
  "getImageMimeType filename =
     (let extension = map_option toLowerCase (pop (split CHR ''.'' filename))
      in if extension = Some ''jpg'' \<or> extension = Some ''jpeg'' then ''image/jpeg''
         else if extension = Some ''png'' then ''image/png''
         else if extension = Some ''gif'' then ''image/gif''
         else if extension = Some ''webp'' then ''image/webp''
         else ''application/octet-stream'')"

text \<open>The loop over \<open>imageFiles\<close>, with the running \<open>pageNum\<close> and \<open>extractedPages\<close>.\<close>

fun cbzLoop ::
  "zip \<Rightarrow> string list \<Rightarrow> nat \<Rightarrow> Page list \<Rightarrow> World \<Rightarrow> (js_error + Page list) \<times> World" where
  "cbzLoop z [] n extractedPages w = (Inr extractedPages, w)"
| "cbzLoop z (imageName # rest) n extractedPages w =
     (case zip_file z imageName of
        None \<Rightarrow> cbzLoop z rest n extractedPages w
      | Some imageFile \<Rightarrow>
          (case data imageFile of
             None \<Rightarrow> (Inl (new_Error ''Corrupted zip : CRC32 mismatch''), w)
           | Some blob \<Rightarrow>
               (let fileType = getImageMimeType imageName;
                    pageFile = \<lparr>name = imageName, type = fileType, content = Bytes blob\<rparr>;
                    (url, w') = createObjectURL w
                in cbzLoop z rest (Suc n)
                     (extractedPages @
                        [\<lparr>pageNum = n, pageFile = pageFile, previewUrl = url, translation = None,
                          isTranslating = False, error = None\<rparr>]) w')))"

definition imageFiles :: "zip \<Rightarrow> string list" where
  "imageFiles z =
     sort (filter (\<lambda>n. (case map_of z n of None \<Rightarrow> False | Some e \<Rightarrow> \<not> dir e) \<and> isImageName n)
             (Object_keys z))"

text \<open>The body of the \<^verbatim>\<open>try\<close> of \<open>handleCbz\<close>: what it throws, if anything, and the state reached.\<close>

definition handleCbz_try :: "File \<Rightarrow> World \<Rightarrow> js_error option \<times> World" where
  "handleCbz_try f w =
     (case JSZip_loadAsync f of
        Inl e \<Rightarrow> (Some e, w)
      | Inr z \<Rightarrow>
          if length (imageFiles z) = 0 then (Some (new_Error ''No images found in the .cbz file.''), w)
          else
            (let w1 = w\<lparr>totalPageCount := length (imageFiles z)\<rparr>
             in case cbzLoop z (imageFiles z) 1 [] w1 of
                  (Inl e, w2) \<Rightarrow> (Some e, w2)
                | (Inr extractedPages, w2) \<Rightarrow>
                    (None, w2\<lparr>pages := extractedPages, status := File_loaded\<rparr>)))"

definition handleCbz :: "File \<Rightarrow> World \<Rightarrow> World" where
  "handleCbz f w =
     (case handleCbz_try f w of
        (None, w') \<Rightarrow> w'
      | (Some e, w') \<Rightarrow>
          w'\<lparr>status := Error,
             errorMessage := ''Failed to read the .cbz file. It might be corrupted.''\<rparr>)"

subsection \<open>PDF rasterization\<close>

text \<open>The loop \<^verbatim>\<open>for (let i = 1; i <= pdf.numPages; i++)\<close>, over the indices still to do.\<close>

fun pdfLoop :: "pdf \<Rightarrow> nat list \<Rightarrow> Page list \<Rightarrow> World \<Rightarrow> (js_error + Page list) \<times> World" where
  "pdfLoop d [] extractedPages w = (Inr extractedPages, w)"
| "pdfLoop d (i # rest) extractedPages w =
     (case renderPage d i (3 / 2) ''image/png'' of
        GetPageRejects e \<Rightarrow> (Inl e, w)
      | NoContext \<Rightarrow> pdfLoop d rest extractedPages w
      | RenderRejects e \<Rightarrow> (Inl e, w)
      | NoBlob \<Rightarrow> pdfLoop d rest extractedPages w
      | Rendered blob \<Rightarrow>
          (let pageFile = \<lparr>name = ''page_'' @ showNat i @ ''.png'', type = ''image/png'',
                           content = Bytes blob\<rparr>;
               (url, w') = createObjectURL w
           in pdfLoop d rest
                (extractedPages @
                   [\<lparr>pageNum = i, pageFile = pageFile, previewUrl = url, translation = None,
                     isTranslating = False, error = None\<rparr>]) w'))"

definition handlePdf_try :: "File \<Rightarrow> World \<Rightarrow> js_error option \<times> World" where
  "handlePdf_try f w =
     (let (url, w0) = createObjectURL w
      in case getDocument f of
           Inl e \<Rightarrow> (Some e, w0)
         | Inr d \<Rightarrow>
             (let w1 = w0\<lparr>totalPageCount := numPages d\<rparr>
              in case pdfLoop d [1 ..< Suc (numPages d)] [] w1 of
                   (Inl e, w2) \<Rightarrow> (Some e, w2)
                 | (Inr extractedPages, w2) \<Rightarrow>
                     (None, w2\<lparr>pages := extractedPages, status := File_loaded\<rparr>)))"

definition handlePdf :: "File \<Rightarrow> World \<Rightarrow> World" where
  "handlePdf f w =
     (if \<not> pdfjsLib w then
        w\<lparr>status := Error,
          errorMessage := ''PDF library is not available. Please check your connection.''\<rparr>
      else
        (case handlePdf_try f w of
           (None, w') \<Rightarrow> w'
         | (Some e, w') \<Rightarrow>
             w'\<lparr>status := Error,
                errorMessage := ''Failed to read the .pdf file. It might be corrupted or protected.''\<rparr>))"

subsection \<open>Dispatch on the file name\<close>

definition fileExtension :: "File \<Rightarrow> string option" where
  "fileExtension f = pop (split CHR ''.'' (toLowerCase (name f)))"

definition handleFile :: "File \<Rightarrow> World \<Rightarrow> World" where
  "handleFile f w =
     (let w1 = (reset w)\<lparr>status := Loading_file, uploadedFile := Some f, fileName := name f\<rparr>
      in if fileExtension f = Some ''cbz'' then handleCbz f w1
         else if fileExtension f = Some ''pdf'' then handlePdf f w1
         else w1\<lparr>status := Error,
                 errorMessage := ''Invalid file type. Please upload a .cbz or .pdf file.''\<rparr>)"

section \<open>The translation client\<close>

text \<open>The constructor: the key comes from the process environment; \<open>mk\<close> builds the client.\<close>

definition GeminiService_new ::
  "string option \<Rightarrow> (string \<Rightarrow> nat \<Rightarrow> request \<Rightarrow> GenResult) \<Rightarrow> GeminiService" where
  "GeminiService_new API_KEY mk =
     (case API_KEY of
        None \<Rightarrow> \<lparr>genAI = None, apiKeySignal = ''''\<rparr>
      | Some apiKey \<Rightarrow>
          if apiKey \<noteq> '''' then \<lparr>genAI = Some (mk apiKey), apiKeySignal = ''******''\<rparr>
          else \<lparr>genAI = None, apiKeySignal = ''''\<rparr>)"

definition invalidKeyMessage :: string where
  "invalidKeyMessage =
     ''Translation failed: The provided API key is invalid. Please check your key and try again.''"

definition failedPrefix :: string where
  "failedPrefix = ''Translation failed. Please check the console for details. Error: ''"

definition new_TypeError :: "string \<Rightarrow> js_error" where
  "new_TypeError m = JsError (''TypeError: '' @ m) (Some m)"

text \<open>
  \<open>fileToGenerativePart\<close>: the promise resolves, from the \<^verbatim>\<open>onloadend\<close> callback, with the
  text after the first comma of the data URL; it is rejected when the executor throws; and
  it never settles when the read ends with a null result, the callback then throwing
  before it calls \<^verbatim>\<open>resolve\<close>.
\<close>

definition fileToGenerativePart :: "World \<Rightarrow> File \<Rightarrow> (string option \<times> string) async" where
  "fileToGenerativePart w f =
     (case readAsDataURL w f of
        ReaderThrows e \<Rightarrow> Thrown e
      | ReadEnds None \<Rightarrow> Pending
      | ReadEnds (Some s) \<Rightarrow>
          Resolved (case split CHR '','' s of a # d # rest \<Rightarrow> Some d | _ \<Rightarrow> None, type f))"

text \<open>
  \<open>translateMangaPage\<close>: how the call ends for its caller, the value of a call that resolves
  being the string returned, or \<open>None\<close> for undefined. The invocation is recorded in
  \<open>clientCalls\<close>. The image is read before the \<^verbatim>\<open>try\<close>; in the \<^verbatim>\<open>catch\<close>, a rejection value that
  is null or undefined skips the test of the key and makes the read of its \<^verbatim>\<open>message\<close>
  throw.
\<close>

definition translateMangaPage ::
  "GeminiService \<Rightarrow> File \<Rightarrow> string \<Rightarrow> TranslationMode \<Rightarrow> World \<Rightarrow> string option async \<times> World" where
  "translateMangaPage g imageFile url mode w =
     (let w' = w\<lparr>clientCalls := clientCalls w @ [(imageFile, url, mode)]\<rparr>
      in case genAI g of
           None \<Rightarrow> (Thrown (new_Error ''Gemini AI client is not initialized. Check API Key.''), w')
         | Some client \<Rightarrow>
             (case fileToGenerativePart w imageFile of
                Thrown e \<Rightarrow> (Thrown e, w')
              | Pending \<Rightarrow> (Pending, w')
              | Resolved imagePart \<Rightarrow>
                  (case client (length (clientCalls w)) (imagePart, url, mode) of
                     Response text \<Rightarrow> (Resolved text, w')
                   | Rejected RejectNull \<Rightarrow>
                       (Thrown (new_TypeError ''Cannot read properties of null (reading 'message')''), w')
                   | Rejected RejectUndefined \<Rightarrow>
                       (Thrown (new_TypeError
                          ''Cannot read properties of undefined (reading 'message')''), w')
                   | Rejected (RejectWith err) \<Rightarrow>
                       if sublist ''API key not valid'' (toString err)
                       then (Resolved (Some invalidKeyMessage), w')
                       else (Resolved (Some (failedPrefix @
                               (case message err of None \<Rightarrow> ''undefined'' | Some m \<Rightarrow> m))), w'))))"

section \<open>The translation run\<close>

text \<open>The three updates of the Page Store, each a \<open>map\<close> over the pages that touches
  the pages whose number is that of the current page.\<close>

definition markTranslating :: "nat \<Rightarrow> Page list \<Rightarrow> Page list" where
  "markTranslating n currentPages =
     map (\<lambda>p. if pageNum p = n then p\<lparr>isTranslating := True, error := None\<rparr> else p) currentPages"

definition setTranslation :: "nat \<Rightarrow> string list \<Rightarrow> Page list \<Rightarrow> Page list" where
  "setTranslation n ls currentPages =
     map (\<lambda>p. if pageNum p = n then p\<lparr>isTranslating := False, translation := Some ls\<rparr> else p)
       currentPages"

definition setError :: "nat \<Rightarrow> string \<Rightarrow> Page list \<Rightarrow> Page list" where
  "setError n m currentPages =
     map (\<lambda>p. if pageNum p = n then p\<lparr>isTranslating := False, error := Some m\<rparr> else p)
       currentPages"

text \<open>\<^verbatim>\<open>resultText.split('\n').filter(line => line.trim() !== '')\<close>\<close>

definition resultLines :: "string \<Rightarrow> string list" where
  "resultLines resultText = filter (\<lambda>line. trim line \<noteq> '''') (split (CHR 0x0A) resultText)"

text \<open>\<^verbatim>\<open>e.message || 'An unknown error occurred'\<close>\<close>

definition messageOr :: "js_error \<Rightarrow> string" where
  "messageOr e =
     (case message e of None \<Rightarrow> ''An unknown error occurred''
      | Some m \<Rightarrow> if m = '''' then ''An unknown error occurred'' else m)"

text \<open>The \<^verbatim>\<open>catch\<close> of the loop body: the states after its two writes.\<close>

definition onCatch :: "Page \<Rightarrow> js_error \<Rightarrow> World \<Rightarrow> World list" where
  "onCatch page e w2 =
     (let w3 = w2\<lparr>pages := setError (pageNum page) (messageOr e) (pages w2)\<rparr>;
          w4 = w3\<lparr>errorMessage :=
                    ''Failed on page '' @ showNat (pageNum page) @ ''. See details above.''\<rparr>
      in [w3, w4])"

text \<open>
  One iteration of the loop of \<open>translateAll\<close>, as the list of the states it goes through
  (after the page is marked, after the client has been called, after the Page Store is
  updated, after the counter or the error message is updated) and whether it comes to an
  end: it does not when the call of the client never settles. When the client returns
  undefined, \<^verbatim>\<open>resultText.split\<close> throws in the update of the first page with the number of
  the current page, before the Page Store is written, and the \<^verbatim>\<open>catch\<close> runs; with no such
  page the update leaves the Page Store as it is.
\<close>

definition translatePage ::
  "GeminiService \<Rightarrow> string \<Rightarrow> TranslationMode \<Rightarrow> Page \<Rightarrow> World \<Rightarrow> World list \<times> bool" where
  "translatePage g url mode page w =
     (let w1 = w\<lparr>pages := markTranslating (pageNum page) (pages w)\<rparr>;
          (r, w2) = translateMangaPage g (pageFile page) url mode w1
      in case r of
           Pending \<Rightarrow> ([w1, w2], False)
         | Thrown e \<Rightarrow> ([w1, w2] @ onCatch page e w2, True)
         | Resolved None \<Rightarrow>
             if pageNum page \<in> set (map pageNum (pages w2)) then
               ([w1, w2] @
                  onCatch page
                    (new_TypeError ''Cannot read properties of undefined (reading 'split')'') w2,
                True)
             else
               (let w3 = w2;
                    w4 = w3\<lparr>translatedPageCount := translatedPageCount w3 + 1\<rparr>
                in ([w1, w2, w3, w4], True))
         | Resolved (Some resultText) \<Rightarrow>
             (let w3 = w2\<lparr>pages := setTranslation (pageNum page) (resultLines resultText) (pages w2)\<rparr>;
                  w4 = w3\<lparr>translatedPageCount := translatedPageCount w3 + 1\<rparr>
              in ([w1, w2, w3, w4], True)))"

text \<open>The loop over \<open>pagesToTranslate\<close>: the states it goes through and whether it ends.\<close>

fun translateLoop ::
  "GeminiService \<Rightarrow> string \<Rightarrow> TranslationMode \<Rightarrow> Page list \<Rightarrow> World \<Rightarrow> World list \<times> bool" where
  "translateLoop g url mode [] w = ([], True)"
| "translateLoop g url mode (page # rest) w =
     (let (steps, ended) = translatePage g url mode page w
      in if ended then
           (let (more, fin) = translateLoop g url mode rest (last steps) in (steps @ more, fin))
         else (steps, False))"

text \<open>
  \<open>translateAll\<close> as the list of the states it goes through. A run that a guard stops has
  one state. A run that ends has \<open>success\<close> as its last state; a run whose client never
  settles stays in the state it has reached. The run is followed on its own: no other
  handler of the component runs while it waits for the client.
\<close>

definition translateAll_steps :: "GeminiService \<Rightarrow> World \<Rightarrow> World list" where
  "translateAll_steps g w =
     (let url = trim (wikiUrl w); mode = translationMode w
      in if length (pages w) = 0 then
           [w\<lparr>status := Error, errorMessage := ''No pages loaded to translate.''\<rparr>]
         else if url = '''' then
           [w\<lparr>status := Error,
              errorMessage := ''Please provide a Wikipedia or Fandom URL for context.''\<rparr>]
         else if apiKeySignal g = '''' then
           [w\<lparr>status := Error,
              errorMessage := ''API Key is not configured. Cannot translate.'',
              isApiKeyModalVisible := True\<rparr>]
         else
           (let w0 = w\<lparr>status := Translating, translatedPageCount := 0, errorMessage := ''''\<rparr>;
                (loop, fin) = translateLoop g url mode (pages w0) w0;
                steps = w0 # loop
            in if fin then steps @ [(last steps)\<lparr>status := Success\<rparr>] else steps))"

text \<open>The state \<open>translateAll\<close> ends in, or stays in.\<close>

definition translateAll :: "GeminiService \<Rightarrow> World \<Rightarrow> World" where
  "translateAll g w = last (translateAll_steps g w)"

section \<open>Auxiliary definitions and sample inputs\<close>

text \<open>The page object that the loop of \<open>handleCbz\<close> pushes.\<close>

definition cbzPage :: "blob \<Rightarrow> string \<Rightarrow> nat \<Rightarrow> nat \<Rightarrow> Page" where
  "cbzPage b a k url =
     \<lparr>pageNum = k, pageFile = \<lparr>name = a, type = getImageMimeType a, content = Bytes b\<rparr>,
      previewUrl = url, translation = None, isTranslating = False, error = None\<rparr>"

text \<open>The component as its field initialisers leave it, in a browser with pdf.js loaded
  and in which every file can be read.\<close>

definition initialWorld :: World where
  "initialWorld =
     \<lparr>status = Idle, uploadedFile = None, fileName = '''', pages = [], totalPageCount = 0,
      translatedPageCount = 0, wikiUrl = '''', translationMode = In_depth,
      isApiKeyModalVisible = True, apiKeyInput = '''', errorMessage = '''', isDragging = False,
      objectUrls = [], nextObjectUrl = 0, pdfjsLib = True,
      readAsDataURL = (\<lambda>f. ReadEnds (Some (''data:'' @ type f @ '';base64,AAAA''))),
      clientCalls = []\<rparr>"

definition bookZip :: zip where
  "bookZip =
     [(''002.png'', \<lparr>dir = False, data = Some 2\<rparr>), (''001.png'', \<lparr>dir = False, data = Some 1\<rparr>),
      (''010.jpg'', \<lparr>dir = False, data = Some 10\<rparr>)]"

definition book :: File where
  "book = \<lparr>name = ''book.cbz'', type = ''application/zip'', content = ZipArchive bookZip\<rparr>"

definition textOnly :: File where
  "textOnly = \<lparr>name = ''notes.cbz'', type = ''application/zip'',
     content = ZipArchive [(''readme.txt'', \<lparr>dir = False, data = Some 5\<rparr>)]\<rparr>"

definition garbage :: File where
  "garbage = \<lparr>name = ''broken.cbz'', type = ''application/zip'', content = Bytes 0\<rparr>"

text \<open>A model that rejects its second request with a server error and answers the others.\<close>

definition sampleModel :: "string \<Rightarrow> nat \<Rightarrow> request \<Rightarrow> GenResult" where
  "sampleModel apiKey n req =
     (if n = 1 then
        Rejected (RejectWith (JsError ''Error: 503 Service Unavailable'' (Some ''503 Service Unavailable'')))
      else Response (Some ''English: Hi!\<newline>Vietnamese: Chao!\<newline>''))"

definition sampleService :: GeminiService where
  "sampleService = GeminiService_new (Some ''key'') sampleModel"

text \<open>A model that answers what a failed call would return.\<close>

definition echoModel :: "string \<Rightarrow> nat \<Rightarrow> request \<Rightarrow> GenResult" where
  "echoModel apiKey n req = Response (Some (failedPrefix @ ''503 Service Unavailable''))"

text \<open>A model whose fifth response has no text, the others being answered.\<close>

definition blockedModel :: "string \<Rightarrow> nat \<Rightarrow> request \<Rightarrow> GenResult" where
  "blockedModel apiKey n req =
     (if n = 4 then Response None
      else Response (Some ''English: Hi!\<newline>Vietnamese: Chao!\<newline>''))"

definition blockedService :: GeminiService where
  "blockedService = GeminiService_new (Some ''key'') blockedModel"

definition loadedWorld :: World where
  "loadedWorld = handleFile book initialWorld"

definition readyWorld :: World where
  "readyWorld = loadedWorld\<lparr>wikiUrl := ''https://en.wikipedia.org/wiki/Manga''\<rparr>"

text \<open>The state after a first run, in which every page has got its lines.\<close>

definition translatedWorld :: World where
  "translatedWorld = translateAll blockedService readyWorld"

definition notesTxt :: File where
  "notesTxt = \<lparr>name = ''notes.txt'', type = ''text/plain'', content = Bytes 0\<rparr>"

definition mixedCase :: File where
  "mixedCase = \<lparr>name = ''Vol.1.CbZ'', type = '''', content = ZipArchive bookZip\<rparr>"

text \<open>The page object that the loop of \<open>handlePdf\<close> pushes.\<close>

definition pdfPage :: "nat \<Rightarrow> blob \<Rightarrow> nat \<Rightarrow> Page" where
  "pdfPage i b url =
     \<lparr>pageNum = i,
      pageFile = \<lparr>name = ''page_'' @ showNat i @ ''.png'', type = ''image/png'', content = Bytes b\<rparr>,
      previewUrl = url, translation = None, isTranslating = False, error = None\<rparr>"

definition threePages :: pdf where
  "threePages = \<lparr>numPages = 3, renderPage = (\<lambda>i scale t. Rendered (100 + i))\<rparr>"

text \<open>A two-page document whose first page the canvas cannot encode.\<close>

definition blankFirst :: pdf where
  "blankFirst =
     \<lparr>numPages = 2, renderPage = (\<lambda>i scale t. if i = 1 then NoBlob else Rendered (100 + i))\<rparr>"

definition pdfFile :: "pdf \<Rightarrow> File" where
  "pdfFile d = \<lparr>name = ''book.pdf'', type = ''application/pdf'', content = PdfDocument d\<rparr>"

section \<open>Invariants of the Page Store\<close>

definition atMostOneTranslating :: "Page list \<Rightarrow> bool" where
  "atMostOneTranslating ps \<longleftrightarrow> length (filter isTranslating ps) \<le> 1"

text \<open>A page has lines, or an error, or neither, never both.\<close>

definition exclusiveOutcome :: "Page \<Rightarrow> bool" where
  "exclusiveOutcome p \<longleftrightarrow> \<not> (translation p \<noteq> None \<and> error p \<noteq> None)"

definition noneTranslating :: "Page list \<Rightarrow> bool" where
  "noneTranslating ps \<longleftrightarrow> (\<forall>p \<in> set ps. \<not> isTranslating p)"

definition allExclusive :: "Page list \<Rightarrow> bool" where
  "allExclusive ps \<longleftrightarrow> (\<forall>p \<in> set ps. exclusiveOutcome p)"

text \<open>The pages whose number is among those of \<open>rest\<close>, the pages still to do, have no lines.\<close>

definition untouched :: "Page list \<Rightarrow> Page list \<Rightarrow> bool" where
  "untouched rest ps \<longleftrightarrow> (\<forall>p \<in> set ps. pageNum p \<in> pageNum ` set rest \<longrightarrow> translation p = None)"

text \<open>
  What an iteration for page number \<open>n\<close> can make of the Page Store \<open>ps1\<close> it has marked:
  lines are stored, or an error is stored, or nothing is written, no page having that
  number.
\<close>

definition outcomePages :: "nat \<Rightarrow> Page list \<Rightarrow> Page list \<Rightarrow> bool" where
  "outcomePages n ps1 ps2 \<longleftrightarrow>
     (\<exists>ls. ps2 = setTranslation n ls ps1) \<or> (\<exists>m. ps2 = setError n m ps1)
     \<or> (ps2 = ps1 \<and> n \<notin> set (map pageNum ps1))"

text \<open>Pages as extraction leaves them.\<close>

definition fresh :: "Page list \<Rightarrow> bool" where
  "fresh ps \<longleftrightarrow> (\<forall>p \<in> set ps. \<not> isTranslating p \<and> translation p = None \<and> error p = None)"

section \<open>Properties\<close>

subsection \<open>Archive extraction\<close>

lemma cbzLoop_Some:
  "zip_file z a = Some e \<Longrightarrow> data e = Some b \<Longrightarrow>
   cbzLoop z (a # ns) k acc w =
   cbzLoop z ns (Suc k) (acc @ [cbzPage b a k (nextObjectUrl w)]) (snd (createObjectURL w))"
  by (simp add: createObjectURL_def cbzPage_def Let_def)








text \<open>
  C5, evaluated on an archive whose only entry is \<open>readme.txt\<close>: the body throws the
  "No images found" error, the handler replaces it by the message of a corrupt archive,
  and the state reached is the one a file that is no archive at all leads to.
\<close>

theorem handleCbz_empty_archive_reported_as_corrupt:
  "fst (handleCbz_try textOnly initialWorld) = Some (new_Error ''No images found in the .cbz file.'')
   \<and> errorMessage (handleCbz textOnly initialWorld) = ''Failed to read the .cbz file. It might be corrupted.''
   \<and> handleCbz textOnly initialWorld = handleCbz garbage initialWorld"
proof -
  have i: "imageFiles [(''readme.txt'', \<lparr>dir = False, data = Some 5\<rparr>)] = []" by code_simp
  show ?thesis
    by (simp add: handleCbz_def handleCbz_try_def JSZip_loadAsync_def textOnly_def garbage_def i)
qed

subsection \<open>PDF rasterization\<close>

lemma pdfLoop_Rendered:
  "renderPage d i (3 / 2) ''image/png'' = Rendered b \<Longrightarrow>
   pdfLoop d (i # rest) acc w =
   pdfLoop d rest (acc @ [pdfPage i b (nextObjectUrl w)]) (snd (createObjectURL w))"
  by (simp add: createObjectURL_def pdfPage_def Let_def)

lemma pdfLoop_all_rendered:
  "\<forall>i \<in> set is. renderPage d i (3 / 2) ''image/png'' = Rendered (b i) \<Longrightarrow>
   \<exists>ps. fst (pdfLoop d is acc w) = Inr ps
      \<and> map pageNum ps = map pageNum acc @ is
      \<and> map pageFile ps = map pageFile acc @
           map (\<lambda>i. \<lparr>name = ''page_'' @ showNat i @ ''.png'', type = ''image/png'', content = Bytes (b i)\<rparr>) is"
proof (induction "is" arbitrary: acc w)
  case Nil
  then show ?case by simp
next
  case (Cons i rest)
  from Cons.prems have r: "renderPage d i (3 / 2) ''image/png'' = Rendered (b i)" by simp
  from Cons.prems have rest: "\<forall>j \<in> set rest. renderPage d j (3 / 2) ''image/png'' = Rendered (b j)" by simp
  show ?case
    unfolding pdfLoop_Rendered [OF r]
    using Cons.IH [OF rest, of "acc @ [pdfPage i (b i) (nextObjectUrl w)]" "snd (createObjectURL w)"]
    by (auto simp: pdfPage_def)
qed

text \<open>
  C6, as amended: for a document that opens and declares N pages, if every page is
  fetched and rendered and the canvas gives a context and a blob for each, rasterization
  ends in \<open>file-loaded\<close> with exactly N pages, numbered 1..N in page order, page i being the
  file \<open>page_i.png\<close> of type \<open>image/png\<close> holding what page i rendered at scale 1.5 encodes to.
\<close>

theorem handlePdf_all_pages:
  assumes "content f = PdfDocument d" and "pdfjsLib w"
    and "\<forall>i \<in> {1 .. numPages d}. renderPage d i (3 / 2) ''image/png'' = Rendered (b i)"
  shows "status (handlePdf f w) = File_loaded
    \<and> length (pages (handlePdf f w)) = numPages d
    \<and> map pageNum (pages (handlePdf f w)) = [1 ..< Suc (numPages d)]
    \<and> map pageFile (pages (handlePdf f w)) =
         map (\<lambda>i. \<lparr>name = ''page_'' @ showNat i @ ''.png'', type = ''image/png'', content = Bytes (b i)\<rparr>)
           [1 ..< Suc (numPages d)]"
proof -
  let ?w1 = "(snd (createObjectURL w))\<lparr>totalPageCount := numPages d\<rparr>"
  let ?is = "[1 ..< Suc (numPages d)]"
  have all: "\<forall>i \<in> set ?is. renderPage d i (3 / 2) ''image/png'' = Rendered (b i)"
    using assms(3) by auto
  from pdfLoop_all_rendered [OF all, of "[]" ?w1]
  obtain ps where ps: "fst (pdfLoop d ?is [] ?w1) = Inr ps"
    and nums: "map pageNum ps = ?is"
    and files: "map pageFile ps =
         map (\<lambda>i. \<lparr>name = ''page_'' @ showNat i @ ''.png'', type = ''image/png'', content = Bytes (b i)\<rparr>) ?is"
    by auto
  obtain w2 where w2: "pdfLoop d ?is [] ?w1 = (Inr ps, w2)"
    using ps by (cases "pdfLoop d ?is [] ?w1") auto
  have eq: "handlePdf f w = w2\<lparr>pages := ps, status := File_loaded\<rparr>"
    using assms(1,2) w2
    by (simp add: handlePdf_def handlePdf_try_def getDocument_def split_beta Let_def del: upt_Suc)
  have len: "length ps = numPages d"
    using arg_cong [OF nums, of length] by simp
  show ?thesis
    unfolding eq using nums files len by simp
qed

theorem handlePdf_all_pages_witness:
  "map pageNum (pages (handlePdf (pdfFile threePages) initialWorld)) = [1, 2, 3]
   \<and> map (name \<circ> pageFile) (pages (handlePdf (pdfFile threePages) initialWorld))
        = [''page_1.png'', ''page_2.png'', ''page_3.png'']
   \<and> status (handlePdf (pdfFile threePages) initialWorld) = File_loaded"
proof -
  have c: "content (pdfFile threePages) = PdfDocument threePages" by (simp add: pdfFile_def)
  have l: "pdfjsLib initialWorld" by (simp add: initialWorld_def)
  have r: "\<forall>i \<in> {1 .. numPages threePages}.
             renderPage threePages i (3 / 2) ''image/png'' = Rendered (100 + i)"
    by (simp add: threePages_def)
  have u: "[1 ..< Suc (numPages threePages)] = [1, 2, 3]" unfolding threePages_def by code_simp
  have s: "map showNat [1, 2, 3] = [''1'', ''2'', ''3'']" by code_simp
  note t = handlePdf_all_pages [OF c l r]
  have f: "map (name \<circ> pageFile) (pages (handlePdf (pdfFile threePages) initialWorld))
           = map name (map pageFile (pages (handlePdf (pdfFile threePages) initialWorld)))"
    by simp
  show ?thesis
    unfolding f using t s unfolding u by simp
qed

text \<open>
  C6 as stated fails: a document that opens and declares two pages, the first of which
  the canvas encodes to no blob, is loaded with a single page, numbered 2.
\<close>

theorem handlePdf_skips_page_counterexample:
  "numPages blankFirst = 2
   \<and> status (handleFile (pdfFile blankFirst) initialWorld) = File_loaded
   \<and> map pageNum (pages (handleFile (pdfFile blankFirst) initialWorld)) = [2]"
  by code_simp

subsection \<open>Dispatch on the file name\<close>

lemma split_nonempty: "split c s \<noteq> []"
  by (induction s) (auto split: list.splits)

lemma split_no_sep: "c \<notin> set e \<Longrightarrow> split c e = [e]"
  by (induction e) auto

lemma split_append_sep: "split c (a @ c # e) = split c a @ split c e"
proof (induction a)
  case Nil
  show ?case by simp
next
  case (Cons x a)
  obtain v vs where v: "split c a = v # vs"
    using split_nonempty [of c a] by (cases "split c a") auto
  show ?case using Cons v by simp
qed

lemma pop_split_suffix: "c \<notin> set e \<Longrightarrow> pop (split c (a @ c # e)) = Some e"
  by (simp add: pop_def split_append_sep split_nonempty split_no_sep)

lemma toLowerChar_dot: "toLowerChar x = CHR ''.'' \<longleftrightarrow> x = CHR ''.''"
proof
  assume a: "toLowerChar x = CHR ''.''"
  let ?n = "of_char x :: nat"
  show "x = CHR ''.''"
  proof (cases "(65 \<le> ?n \<and> ?n \<le> 90) \<or> (192 \<le> ?n \<and> ?n \<le> 222 \<and> ?n \<noteq> 215)")
    case True
    then have "toLowerChar x = char_of (?n + 32)" by (simp add: toLowerChar_def Let_def)
    with a have "(of_char (char_of (?n + 32) :: char) :: nat) = of_char CHR ''.''" by simp
    then have "(?n + 32) mod 256 = 46" by (simp add: of_char_of)
    with True show ?thesis by (auto simp: mod_if split: if_splits)
  next
    case False
    then have "toLowerChar x = x" unfolding toLowerChar_def Let_def by (simp only: if_False)
    with a show ?thesis by simp
  qed
next
  assume "x = CHR ''.''"
  then show "toLowerChar x = CHR ''.''" by (simp add: toLowerChar_def)
qed

lemma toLowerCase_no_dot: "CHR ''.'' \<notin> set e \<Longrightarrow> CHR ''.'' \<notin> set (toLowerCase e)"
  unfolding toLowerCase_def by (metis toLowerChar_dot imageE set_map)

lemma fileExtension_suffix:
  assumes "name f = base @ ''.'' @ ext" and "CHR ''.'' \<notin> set ext"
  shows "fileExtension f = Some (toLowerCase ext)"
proof -
  have "toLowerCase (name f) = toLowerCase base @ CHR ''.'' # toLowerCase ext"
    using assms(1) by (simp add: toLowerCase_def toLowerChar_def)
  then show ?thesis
    unfolding fileExtension_def using toLowerCase_no_dot [OF assms(2)] by (simp add: pop_split_suffix)
qed

text \<open>
  C10, as amended: the dispatch looks at the text after the last dot of the name, lower-cased.
  For a name with a dot, \<open>cbz\<close> goes to archive extraction and \<open>pdf\<close> to rasterization, both
  on the state that \<open>reset\<close> and the loading marks leave; any other suffix gives the
  unsupported-type error, with the Page Store emptied by the \<open>reset\<close> that comes first.
\<close>

theorem handleFile_dispatch:
  assumes "name f = base @ ''.'' @ ext" and "CHR ''.'' \<notin> set ext"
  shows "handleFile f w =
          (let w1 = (reset w)\<lparr>status := Loading_file, uploadedFile := Some f, fileName := name f\<rparr>
           in if toLowerCase ext = ''cbz'' then handleCbz f w1
              else if toLowerCase ext = ''pdf'' then handlePdf f w1
              else w1\<lparr>status := Error,
                      errorMessage := ''Invalid file type. Please upload a .cbz or .pdf file.''\<rparr>)
    \<and> (toLowerCase ext \<noteq> ''cbz'' \<and> toLowerCase ext \<noteq> ''pdf'' \<longrightarrow>
          status (handleFile f w) = Error \<and> pages (handleFile f w) = []
          \<and> errorMessage (handleFile f w) = ''Invalid file type. Please upload a .cbz or .pdf file.'')"
  unfolding handleFile_def fileExtension_suffix [OF assms]
  by (simp add: Let_def reset_def)

theorem handleFile_dispatch_witness:
  "name mixedCase = ''Vol.1'' @ ''.'' @ ''CbZ'' \<and> CHR ''.'' \<notin> set ''CbZ''
   \<and> handleFile mixedCase initialWorld =
       handleCbz mixedCase
         ((reset initialWorld)\<lparr>status := Loading_file, uploadedFile := Some mixedCase,
                               fileName := name mixedCase\<rparr>)"
proof -
  have n: "name mixedCase = ''Vol.1'' @ ''.'' @ ''CbZ''" by (simp add: mixedCase_def)
  have d: "CHR ''.'' \<notin> set ''CbZ''" by simp
  have l: "toLowerCase ''CbZ'' = ''cbz''" by code_simp
  show ?thesis
    using handleFile_dispatch [OF n d, of initialWorld] n d l by (simp add: Let_def)
qed

text \<open>
  C10 as stated fails: with three pages loaded, selecting \<open>notes.txt\<close> gives the error
  and leaves a Page Store that is not the one before.
\<close>

theorem handleFile_unsupported_clears_pages_counterexample:
  "status (handleFile notesTxt loadedWorld) = Error
   \<and> pages (handleFile notesTxt loadedWorld) \<noteq> pages loadedWorld"
proof -
  have s: "status (handleFile notesTxt loadedWorld) = Error" by code_simp
  have a: "length (pages loadedWorld) = 3" by code_simp
  have b: "length (pages (handleFile notesTxt loadedWorld)) = 0" by code_simp
  from a b have "pages (handleFile notesTxt loadedWorld) \<noteq> pages loadedWorld" by auto
  with s show ?thesis by simp
qed

subsection \<open>Reset\<close>

text \<open>
  C8: resetting a session, whatever its state and its pages, yields an empty Page Store,
  clears the context URL, puts the mode back to its default and sets the status to idle.
\<close>

theorem reset_clears_session:
  "pages (reset w) = [] \<and> wikiUrl (reset w) = '''' \<and> translationMode (reset w) = In_depth
   \<and> status (reset w) = Idle"
  by (simp add: reset_def)

subsection \<open>The pages that ingestion leaves\<close>

lemma cbzLoop_fresh:
  "fresh acc \<Longrightarrow> distinct (map pageNum acc) \<Longrightarrow> \<forall>p \<in> set acc. pageNum p < k \<Longrightarrow>
   fst (cbzLoop z ns k acc w) = Inr ps \<Longrightarrow> fresh ps \<and> distinct (map pageNum ps)"
proof (induction ns arbitrary: k acc w)
  case Nil
  then show ?case by simp
next
  case (Cons a ns)
  show ?case
  proof (cases "zip_file z a")
    case None
    with Cons.prems(4) have "fst (cbzLoop z ns k acc w) = Inr ps" by simp
    from Cons.IH [OF Cons.prems(1-3) this] show ?thesis .
  next
    case (Some e)
    show ?thesis
    proof (cases "data e")
      case None
      with Some Cons.prems(4) show ?thesis by simp
    next
      case (Some b)
      let ?acc = "acc @ [cbzPage b a k (nextObjectUrl w)]"
      have r: "fst (cbzLoop z ns (Suc k) ?acc (snd (createObjectURL w))) = Inr ps"
        using Cons.prems(4) unfolding cbzLoop_Some [OF \<open>zip_file z a = Some e\<close> Some] .
      have f: "fresh ?acc" using Cons.prems(1) by (simp add: fresh_def cbzPage_def)
      have d: "distinct (map pageNum ?acc)"
        using Cons.prems(2,3) by (auto simp: cbzPage_def)
      have l: "\<forall>p \<in> set ?acc. pageNum p < Suc k"
        using Cons.prems(3) by (auto simp: cbzPage_def less_Suc_eq)
      from Cons.IH [OF f d l r] show ?thesis .
    qed
  qed
qed

lemma pdfLoop_fresh:
  "fresh acc \<Longrightarrow> sorted_wrt (<) (map pageNum acc @ is) \<Longrightarrow>
   fst (pdfLoop d is acc w) = Inr ps \<Longrightarrow> fresh ps \<and> sorted_wrt (<) (map pageNum ps)"
proof (induction "is" arbitrary: acc w)
  case Nil
  then show ?case by simp
next
  case (Cons i rest)
  have skip: "sorted_wrt (<) (map pageNum acc @ rest)"
    using Cons.prems(2) by (auto simp: sorted_wrt_append)
  show ?case
  proof (cases "renderPage d i (3 / 2) ''image/png''")
    case (Rendered b)
    let ?acc = "acc @ [pdfPage i b (nextObjectUrl w)]"
    have r: "fst (pdfLoop d rest ?acc (snd (createObjectURL w))) = Inr ps"
      using Cons.prems(3) unfolding pdfLoop_Rendered [OF Rendered] .
    have f: "fresh ?acc" using Cons.prems(1) by (simp add: fresh_def pdfPage_def)
    have s: "sorted_wrt (<) (map pageNum ?acc @ rest)"
      using Cons.prems(2) by (simp add: pdfPage_def)
    from Cons.IH [OF f s r] show ?thesis .
  next
    case NoContext
    with Cons.prems(3) have "fst (pdfLoop d rest acc w) = Inr ps" by simp
    from Cons.IH [OF Cons.prems(1) skip this] show ?thesis .
  next
    case NoBlob
    with Cons.prems(3) have "fst (pdfLoop d rest acc w) = Inr ps" by simp
    from Cons.IH [OF Cons.prems(1) skip this] show ?thesis .
  next
    case (GetPageRejects e)
    with Cons.prems(3) show ?thesis by simp
  next
    case (RenderRejects e)
    with Cons.prems(3) show ?thesis by simp
  qed
qed

lemma createObjectURL_pages: "pages (snd (createObjectURL w)) = pages w"
  by (simp add: createObjectURL_def)

lemma cbzLoop_pages: "pages (snd (cbzLoop z ns k acc w)) = pages w"
proof (induction ns arbitrary: k acc w)
  case Nil
  show ?case by simp
next
  case (Cons a ns)
  show ?case
  proof (cases "zip_file z a")
    case None
    then show ?thesis using Cons.IH by simp
  next
    case (Some e)
    show ?thesis
    proof (cases "data e")
      case None
      with Some show ?thesis by simp
    next
      case (Some b)
      show ?thesis
        unfolding cbzLoop_Some [OF \<open>zip_file z a = Some e\<close> Some] Cons.IH createObjectURL_pages ..
    qed
  qed
qed

lemma pdfLoop_pages: "pages (snd (pdfLoop d is acc w)) = pages w"
proof (induction "is" arbitrary: acc w)
  case Nil
  show ?case by simp
next
  case (Cons i rest)
  show ?case
  proof (cases "renderPage d i (3 / 2) ''image/png''")
    case (Rendered b)
    show ?thesis
      unfolding pdfLoop_Rendered [OF Rendered] Cons.IH createObjectURL_pages ..
  qed (use Cons.IH in simp_all)
qed

lemma handleCbz_fresh:
  assumes "fresh (pages w)" and "distinct (map pageNum (pages w))"
  shows "fresh (pages (handleCbz f w)) \<and> distinct (map pageNum (pages (handleCbz f w)))"
proof (cases "JSZip_loadAsync f")
  case (Inl e)
  then show ?thesis using assms by (simp add: handleCbz_def handleCbz_try_def)
next
  case (Inr z)
  let ?w1 = "w\<lparr>totalPageCount := length (imageFiles z)\<rparr>"
  let ?r = "cbzLoop z (imageFiles z) 1 [] ?w1"
  show ?thesis
  proof (cases "imageFiles z = []")
    case True
    with Inr show ?thesis using assms by (simp add: handleCbz_def handleCbz_try_def)
  next
    case False
    show ?thesis
    proof (cases "fst ?r")
      case (Inl e)
      have "pages (handleCbz f w) = pages (snd ?r)"
        using \<open>JSZip_loadAsync f = Inr z\<close> False Inl
        by (cases ?r) (simp add: handleCbz_def handleCbz_try_def Let_def)
      also have "\<dots> = pages w" using cbzLoop_pages [where w = ?w1] by simp
      finally show ?thesis using assms by simp
    next
      case (Inr ps)
      have "fresh []" "distinct (map pageNum [])" "\<forall>p \<in> set []. pageNum p < (1::nat)"
        by (simp_all add: fresh_def)
      from cbzLoop_fresh [OF this Inr] have "fresh ps \<and> distinct (map pageNum ps)" .
      then show ?thesis using \<open>JSZip_loadAsync f = Inr z\<close> False Inr
        by (cases ?r) (simp add: handleCbz_def handleCbz_try_def Let_def)
    qed
  qed
qed

lemma handlePdf_fresh:
  assumes "fresh (pages w)" and "distinct (map pageNum (pages w))"
  shows "fresh (pages (handlePdf f w)) \<and> distinct (map pageNum (pages (handlePdf f w)))"
proof (cases "pdfjsLib w")
  case False
  then show ?thesis using assms by (simp add: handlePdf_def)
next
  case True
  let ?w0 = "snd (createObjectURL w)"
  show ?thesis
  proof (cases "getDocument f")
    case (Inl e)
    then show ?thesis using True assms createObjectURL_pages [of w]
      by (simp add: handlePdf_def handlePdf_try_def split_beta)
  next
    case (Inr d)
    let ?w1 = "?w0\<lparr>totalPageCount := numPages d\<rparr>"
    let ?r = "pdfLoop d [1 ..< Suc (numPages d)] [] ?w1"
    show ?thesis
    proof (cases "fst ?r")
      case (Inl e)
      have "pages (handlePdf f w) = pages (snd ?r)"
        using True \<open>getDocument f = Inr d\<close> Inl
        by (cases ?r) (simp add: handlePdf_def handlePdf_try_def split_beta Let_def del: upt_Suc)
      also have "\<dots> = pages w"
        using pdfLoop_pages [where w = ?w1] createObjectURL_pages [of w] by simp
      finally show ?thesis using assms by simp
    next
      case (Inr ps)
      have "fresh []" by (simp add: fresh_def)
      moreover have "sorted_wrt (<) (map pageNum [] @ [1 ..< Suc (numPages d)])"
        by (simp del: upt_Suc)
      ultimately have "fresh ps \<and> sorted_wrt (<) (map pageNum ps)"
        using pdfLoop_fresh [OF _ _ Inr] by blast
      then have "fresh ps \<and> distinct (map pageNum ps)"
        using strict_sorted_iff [of "map pageNum ps"] by auto
      then show ?thesis using True \<open>getDocument f = Inr d\<close> Inr
        by (cases ?r) (simp add: handlePdf_def handlePdf_try_def split_beta Let_def del: upt_Suc)
    qed
  qed
qed

text \<open>Whatever file is selected, the pages it leaves meet the hypotheses of the run.\<close>

lemma handleFile_fresh:
  "fresh (pages (handleFile f w)) \<and> distinct (map pageNum (pages (handleFile f w)))"
proof -
  let ?w1 = "(reset w)\<lparr>status := Loading_file, uploadedFile := Some f, fileName := name f\<rparr>"
  have e: "pages ?w1 = []" by (simp add: reset_def)
  have f: "fresh (pages ?w1)" "distinct (map pageNum (pages ?w1))"
    unfolding e by (simp_all add: fresh_def)
  show ?thesis
    using handleCbz_fresh [OF f] handlePdf_fresh [OF f] f
    by (simp add: handleFile_def Let_def)
qed

subsection \<open>Preview URLs\<close>

lemma createObjectURL_urls:
  "objectUrls (snd (createObjectURL w)) = objectUrls w @ [nextObjectUrl w]"
  by (simp add: createObjectURL_def)

lemma cbzLoop_urls: "prefix (objectUrls w) (objectUrls (snd (cbzLoop z ns k acc w)))"
proof (induction ns arbitrary: k acc w)
  case Nil
  show ?case by simp
next
  case (Cons a ns)
  show ?case
  proof (cases "zip_file z a")
    case None
    then show ?thesis using Cons.IH by simp
  next
    case (Some e)
    show ?thesis
    proof (cases "data e")
      case None
      with Some show ?thesis by simp
    next
      case (Some b)
      have "prefix (objectUrls w) (objectUrls (snd (createObjectURL w)))"
        by (simp add: createObjectURL_urls)
      also have "prefix \<dots> (objectUrls (snd (cbzLoop z (a # ns) k acc w)))"
        using \<open>zip_file z a = Some e\<close> Some Cons.IH [where w = "snd (createObjectURL w)"]
        by (simp add: Let_def split_beta)
      finally show ?thesis .
    qed
  qed
qed

lemma pdfLoop_urls: "prefix (objectUrls w) (objectUrls (snd (pdfLoop d is acc w)))"
proof (induction "is" arbitrary: acc w)
  case Nil
  show ?case by simp
next
  case (Cons i rest)
  show ?case
  proof (cases "renderPage d i (3 / 2) ''image/png''")
    case (Rendered b)
    have "prefix (objectUrls w) (objectUrls (snd (createObjectURL w)))"
      by (simp add: createObjectURL_urls)
    also have "prefix \<dots> (objectUrls (snd (pdfLoop d (i # rest) acc w)))"
      using Rendered Cons.IH [where w = "snd (createObjectURL w)"]
      by (simp add: Let_def split_beta)
    finally show ?thesis .
  qed (use Cons.IH in simp_all)
qed

lemma handleCbz_urls: "prefix (objectUrls w) (objectUrls (handleCbz f w))"
proof (cases "JSZip_loadAsync f")
  case (Inl e)
  then show ?thesis by (simp add: handleCbz_def handleCbz_try_def)
next
  case (Inr z)
  let ?r = "cbzLoop z (imageFiles z) 1 [] (w\<lparr>totalPageCount := length (imageFiles z)\<rparr>)"
  have p: "prefix (objectUrls w) (objectUrls (snd ?r))"
    using cbzLoop_urls [where w = "w\<lparr>totalPageCount := length (imageFiles z)\<rparr>"] by simp
  have "objectUrls (handleCbz f w) = objectUrls w \<or> objectUrls (handleCbz f w) = objectUrls (snd ?r)"
    using Inr
    by (cases ?r; cases "fst ?r") (simp_all add: handleCbz_def handleCbz_try_def Let_def)
  with p show ?thesis by auto
qed

lemma handlePdf_urls: "prefix (objectUrls w) (objectUrls (handlePdf f w))"
proof (cases "pdfjsLib w")
  case False
  then show ?thesis by (simp add: handlePdf_def)
next
  case True
  let ?w0 = "snd (createObjectURL w)"
  have p0: "prefix (objectUrls w) (objectUrls ?w0)" by (simp add: createObjectURL_urls)
  show ?thesis
  proof (cases "getDocument f")
    case (Inl e)
    then show ?thesis using True p0
      by (simp add: handlePdf_def handlePdf_try_def split_beta)
  next
    case (Inr d)
    let ?w1 = "?w0\<lparr>totalPageCount := numPages d\<rparr>"
    let ?r = "pdfLoop d [1 ..< Suc (numPages d)] [] ?w1"
    have p1: "prefix (objectUrls ?w0) (objectUrls (snd ?r))"
      using pdfLoop_urls [where w = ?w1] by simp
    have "objectUrls (handlePdf f w) = objectUrls (snd ?r)"
      using True Inr
      by (cases ?r; cases "fst ?r") (simp_all add: handlePdf_def handlePdf_try_def split_beta Let_def del: upt_Suc)
    then show ?thesis using p0 p1 by (metis prefix_order.trans)
  qed
qed

lemma createObjectURL_next:
  "nextObjectUrl (snd (createObjectURL w)) = Suc (nextObjectUrl w)"
  by (simp add: createObjectURL_def)

lemma cbzLoop_previews:
  "\<forall>p \<in> set acc. n0 \<le> previewUrl p \<Longrightarrow> n0 \<le> nextObjectUrl w \<Longrightarrow>
   fst (cbzLoop z ns k acc w) = Inr ps \<Longrightarrow> \<forall>p \<in> set ps. n0 \<le> previewUrl p"
proof (induction ns arbitrary: k acc w)
  case Nil
  then show ?case by simp
next
  case (Cons a ns)
  show ?case
  proof (cases "zip_file z a")
    case None
    with Cons.prems(3) have "fst (cbzLoop z ns k acc w) = Inr ps" by simp
    from Cons.IH [OF Cons.prems(1,2) this] show ?thesis .
  next
    case (Some e)
    show ?thesis
    proof (cases "data e")
      case None
      with Some Cons.prems(3) show ?thesis by simp
    next
      case (Some b)
      let ?acc = "acc @ [cbzPage b a k (nextObjectUrl w)]"
      have r: "fst (cbzLoop z ns (Suc k) ?acc (snd (createObjectURL w))) = Inr ps"
        using Cons.prems(3) unfolding cbzLoop_Some [OF \<open>zip_file z a = Some e\<close> Some] .
      have a: "\<forall>p \<in> set ?acc. n0 \<le> previewUrl p"
        using Cons.prems(1,2) by (simp add: cbzPage_def)
      have n: "n0 \<le> nextObjectUrl (snd (createObjectURL w))"
        using Cons.prems(2) by (simp add: createObjectURL_next)
      from Cons.IH [OF a n r] show ?thesis .
    qed
  qed
qed

lemma pdfLoop_previews:
  "\<forall>p \<in> set acc. n0 \<le> previewUrl p \<Longrightarrow> n0 \<le> nextObjectUrl w \<Longrightarrow>
   fst (pdfLoop d is acc w) = Inr ps \<Longrightarrow> \<forall>p \<in> set ps. n0 \<le> previewUrl p"
proof (induction "is" arbitrary: acc w)
  case Nil
  then show ?case by simp
next
  case (Cons i rest)
  show ?case
  proof (cases "renderPage d i (3 / 2) ''image/png''")
    case (Rendered b)
    let ?acc = "acc @ [pdfPage i b (nextObjectUrl w)]"
    have r: "fst (pdfLoop d rest ?acc (snd (createObjectURL w))) = Inr ps"
      using Cons.prems(3) unfolding pdfLoop_Rendered [OF Rendered] .
    have a: "\<forall>p \<in> set ?acc. n0 \<le> previewUrl p"
      using Cons.prems(1,2) by (simp add: pdfPage_def)
    have n: "n0 \<le> nextObjectUrl (snd (createObjectURL w))"
      using Cons.prems(2) by (simp add: createObjectURL_next)
    from Cons.IH [OF a n r] show ?thesis .
  next
    case NoContext
    with Cons.prems(3) have "fst (pdfLoop d rest acc w) = Inr ps" by simp
    from Cons.IH [OF Cons.prems(1,2) this] show ?thesis .
  next
    case NoBlob
    with Cons.prems(3) have "fst (pdfLoop d rest acc w) = Inr ps" by simp
    from Cons.IH [OF Cons.prems(1,2) this] show ?thesis .
  next
    case (GetPageRejects e)
    with Cons.prems(3) show ?thesis by simp
  next
    case (RenderRejects e)
    with Cons.prems(3) show ?thesis by simp
  qed
qed

lemma handleCbz_previews:
  assumes "pages w = []"
  shows "\<forall>p \<in> set (pages (handleCbz f w)). nextObjectUrl w \<le> previewUrl p"
proof (cases "JSZip_loadAsync f")
  case (Inl e)
  then show ?thesis using assms by (simp add: handleCbz_def handleCbz_try_def)
next
  case (Inr z)
  let ?w1 = "w\<lparr>totalPageCount := length (imageFiles z)\<rparr>"
  let ?r = "cbzLoop z (imageFiles z) 1 [] ?w1"
  show ?thesis
  proof (cases "imageFiles z = []")
    case True
    with Inr show ?thesis using assms by (simp add: handleCbz_def handleCbz_try_def)
  next
    case False
    show ?thesis
    proof (cases "fst ?r")
      case (Inl e)
      have "pages (handleCbz f w) = pages (snd ?r)"
        using \<open>JSZip_loadAsync f = Inr z\<close> False Inl
        by (cases ?r) (simp add: handleCbz_def handleCbz_try_def Let_def)
      also have "\<dots> = pages w" using cbzLoop_pages [where w = ?w1] by simp
      finally show ?thesis using assms by simp
    next
      case (Inr ps)
      have "\<forall>p \<in> set []. nextObjectUrl w \<le> previewUrl p" "nextObjectUrl w \<le> nextObjectUrl ?w1"
        by simp_all
      from cbzLoop_previews [OF this Inr] have "\<forall>p \<in> set ps. nextObjectUrl w \<le> previewUrl p" .
      then show ?thesis using \<open>JSZip_loadAsync f = Inr z\<close> False Inr
        by (cases ?r) (simp add: handleCbz_def handleCbz_try_def Let_def)
    qed
  qed
qed

lemma handlePdf_previews:
  assumes "pages w = []"
  shows "\<forall>p \<in> set (pages (handlePdf f w)). nextObjectUrl w \<le> previewUrl p"
proof (cases "pdfjsLib w")
  case False
  then show ?thesis using assms by (simp add: handlePdf_def)
next
  case True
  let ?w0 = "snd (createObjectURL w)"
  show ?thesis
  proof (cases "getDocument f")
    case (Inl e)
    then show ?thesis using True assms createObjectURL_pages [of w]
      by (simp add: handlePdf_def handlePdf_try_def split_beta)
  next
    case (Inr d)
    let ?w1 = "?w0\<lparr>totalPageCount := numPages d\<rparr>"
    let ?r = "pdfLoop d [1 ..< Suc (numPages d)] [] ?w1"
    show ?thesis
    proof (cases "fst ?r")
      case (Inl e)
      have "pages (handlePdf f w) = pages (snd ?r)"
        using True \<open>getDocument f = Inr d\<close> Inl
        by (cases ?r) (simp add: handlePdf_def handlePdf_try_def split_beta Let_def del: upt_Suc)
      also have "\<dots> = pages w"
        using pdfLoop_pages [where w = ?w1] createObjectURL_pages [of w] by simp
      finally show ?thesis using assms by simp
    next
      case (Inr ps)
      have "\<forall>p \<in> set []. nextObjectUrl w \<le> previewUrl p" "nextObjectUrl w \<le> nextObjectUrl ?w1"
        by (simp_all add: createObjectURL_next)
      from pdfLoop_previews [OF this Inr] have "\<forall>p \<in> set ps. nextObjectUrl w \<le> previewUrl p" .
      then show ?thesis using True \<open>getDocument f = Inr d\<close> Inr
        by (cases ?r) (simp add: handlePdf_def handlePdf_try_def split_beta Let_def del: upt_Suc)
    qed
  qed
qed

lemma handleFile_previews:
  "\<forall>p \<in> set (pages (handleFile f w)). nextObjectUrl w \<le> previewUrl p"
proof -
  let ?w1 = "(reset w)\<lparr>status := Loading_file, uploadedFile := Some f, fileName := name f\<rparr>"
  have e: "pages ?w1 = []" and n: "nextObjectUrl ?w1 = nextObjectUrl w" by (simp_all add: reset_def)
  show ?thesis
    using handleCbz_previews [OF e, of f] handlePdf_previews [OF e, of f] e n
    by (simp add: handleFile_def Let_def)
qed

lemma handleFile_from_empty: "handleFile f w = handleFile f (w\<lparr>pages := []\<rparr>)"
  by (simp add: handleFile_def reset_def)

text \<open>
  C9, as amended: resetting a session or selecting a new file discards the pages of the
  session, and with them every reference of the Page Store to their preview URLs: \<open>reset\<close>
  leaves an empty Page Store, and the Page Store that selecting a file leaves is the one
  built from an empty Page Store and refers to none of the URLs that were live before
  (given that the URLs handed out so far are below the next one to hand out). But no URL
  is released: every object URL that was live before is live afterwards.
\<close>

theorem previews_never_released:
  "objectUrls (reset w) = objectUrls w
   \<and> pages (reset w) = []
   \<and> handleFile f w = handleFile f (w\<lparr>pages := []\<rparr>)
   \<and> prefix (objectUrls w) (objectUrls (handleFile f w))
   \<and> ((\<forall>u \<in> set (objectUrls w). u < nextObjectUrl w) \<longrightarrow>
        set (map previewUrl (pages (handleFile f w))) \<inter> set (objectUrls w) = {})"
proof -
  let ?w1 = "(reset w)\<lparr>status := Loading_file, uploadedFile := Some f, fileName := name f\<rparr>"
  have u: "objectUrls ?w1 = objectUrls w" by (simp add: reset_def)
  have "prefix (objectUrls ?w1) (objectUrls (handleFile f w))"
    using handleCbz_urls [where w = ?w1] handlePdf_urls [where w = ?w1]
    by (simp add: handleFile_def Let_def)
  then have p: "prefix (objectUrls w) (objectUrls (handleFile f w))" unfolding u .
  have d: "(\<forall>u \<in> set (objectUrls w). u < nextObjectUrl w) \<longrightarrow>
        set (map previewUrl (pages (handleFile f w))) \<inter> set (objectUrls w) = {}"
    using handleFile_previews [of f w] by fastforce
  show ?thesis
    using p d handleFile_from_empty [of f w] by (simp add: reset_def)
qed

theorem previews_never_released_witness:
  "objectUrls loadedWorld = [0, 1, 2] \<and> nextObjectUrl loadedWorld = 3
   \<and> prefix [0, 1, 2] (objectUrls (handleFile book loadedWorld))
   \<and> set (map previewUrl (pages (handleFile book loadedWorld))) \<inter> {0, 1, 2} = {}"
proof -
  have o: "objectUrls loadedWorld = [0, 1, 2]" by code_simp
  have n: "nextObjectUrl loadedWorld = 3" by code_simp
  have a: "\<forall>u \<in> set (objectUrls loadedWorld). u < nextObjectUrl loadedWorld"
    unfolding o n by simp
  from previews_never_released [of loadedWorld book] a
  have "prefix (objectUrls loadedWorld) (objectUrls (handleFile book loadedWorld))
        \<and> set (map previewUrl (pages (handleFile book loadedWorld))) \<inter> set (objectUrls loadedWorld) = {}"
    by blast
  then show ?thesis using o n by simp
qed

text \<open>
  C9 as stated fails: the preview URLs 0, 1, 2 of the three loaded pages are still live
  after \<open>reset\<close>, and still live beside the three new ones after the file is selected again.
\<close>

theorem previews_live_after_reset_counterexample:
  "map previewUrl (pages loadedWorld) = [0, 1, 2]
   \<and> objectUrls (reset loadedWorld) = [0, 1, 2]
   \<and> objectUrls (handleFile book loadedWorld) = [0, 1, 2, 3, 4, 5]
   \<and> map previewUrl (pages (handleFile book loadedWorld)) = [3, 4, 5]"
  by code_simp

subsection \<open>The translation client\<close>

text \<open>
  C2 as stated fails. A service built without a key in the environment has no client, and
  \<open>translateMangaPage\<close> throws to its caller. And a failure of the service is not a value
  of its own kind: for the rejected second request of the sample model the call returns
  the very string it returns when the model answers with that text.
\<close>

theorem translateMangaPage_throws_counterexample:
  "fst (translateMangaPage (GeminiService_new None sampleModel) book
          ''https://en.wikipedia.org/wiki/Manga'' In_depth initialWorld)
     = Thrown (new_Error ''Gemini AI client is not initialized. Check API Key.'')
   \<and> fst (translateMangaPage sampleService book ''u'' In_depth
            (initialWorld\<lparr>clientCalls := [(book, ''u'', In_depth)]\<rparr>))
     = Resolved (Some (failedPrefix @ ''503 Service Unavailable''))
   \<and> fst (translateMangaPage (GeminiService_new (Some ''key'') echoModel) book ''u'' In_depth
            (initialWorld\<lparr>clientCalls := [(book, ''u'', In_depth)]\<rparr>))
     = Resolved (Some (failedPrefix @ ''503 Service Unavailable''))"
proof -
  have ns: "\<not> sublist ''API key not valid'' ''Error: 503 Service Unavailable''" by code_simp
  show ?thesis
    by (simp add: translateMangaPage_def fileToGenerativePart_def GeminiService_new_def
          sampleService_def sampleModel_def echoModel_def initialWorld_def ns)
qed

lemma invalidKey_distinct: "invalidKeyMessage \<noteq> failedPrefix @ m"
  by (simp add: invalidKeyMessage_def failedPrefix_def)

text \<open>
  C2, as amended: without a client the call throws. With a client, once the image has been
  read, the call returns a string in each of these cases: the text of the response, when
  the model answers with text; the fixed invalid-key message, when the model rejects the
  request with an error whose text contains \<open>API key not valid\<close>; the generic message
  followed by the message of the error, when it rejects it with any other error. The
  invalid-key message is never a generic one.
\<close>

theorem translateMangaPage_results:
  "(genAI g = None \<longrightarrow>
      fst (translateMangaPage g f url mode w)
        = Thrown (new_Error ''Gemini AI client is not initialized. Check API Key.''))
   \<and> (\<forall>client part. genAI g = Some client \<and> fileToGenerativePart w f = Resolved part \<longrightarrow>
         (\<forall>text. client (length (clientCalls w)) (part, url, mode) = Response (Some text) \<longrightarrow>
            fst (translateMangaPage g f url mode w) = Resolved (Some text))
       \<and> (\<forall>err. client (length (clientCalls w)) (part, url, mode) = Rejected (RejectWith err) \<longrightarrow>
            fst (translateMangaPage g f url mode w) =
              Resolved (Some (if sublist ''API key not valid'' (toString err) then invalidKeyMessage
                              else failedPrefix @
                                (case message err of None \<Rightarrow> ''undefined'' | Some m \<Rightarrow> m)))))
   \<and> (\<forall>m. invalidKeyMessage \<noteq> failedPrefix @ m)"
  by (simp add: translateMangaPage_def Let_def invalidKey_distinct)

theorem translateMangaPage_results_witness:
  "genAI sampleService = Some (sampleModel ''key'')
   \<and> fileToGenerativePart (initialWorld\<lparr>clientCalls := [(book, ''u'', In_depth)]\<rparr>) book
       = Resolved (Some ''AAAA'', ''application/zip'')
   \<and> fst (translateMangaPage sampleService book ''u'' In_depth
            (initialWorld\<lparr>clientCalls := [(book, ''u'', In_depth)]\<rparr>))
       = Resolved (Some (failedPrefix @ ''503 Service Unavailable''))"
proof -
  let ?w = "initialWorld\<lparr>clientCalls := [(book, ''u'', In_depth)]\<rparr>"
  let ?part = "(Some ''AAAA'', ''application/zip'')"
  have g: "genAI sampleService = Some (sampleModel ''key'')"
    by (simp add: sampleService_def GeminiService_new_def)
  have p: "fileToGenerativePart ?w book = Resolved ?part"
    by (simp add: fileToGenerativePart_def initialWorld_def book_def)
  have r: "sampleModel ''key'' (length (clientCalls ?w)) (?part, ''u'', In_depth)
           = Rejected (RejectWith (JsError ''Error: 503 Service Unavailable''
                                      (Some ''503 Service Unavailable'')))"
    by (simp add: sampleModel_def)
  have ns: "\<not> sublist ''API key not valid'' ''Error: 503 Service Unavailable''" by code_simp
  from translateMangaPage_results [of sampleService book "''u''" In_depth ?w] g p r
  have "fst (translateMangaPage sampleService book ''u'' In_depth ?w) =
          Resolved (Some (if sublist ''API key not valid''
                                (toString (JsError ''Error: 503 Service Unavailable''
                                             (Some ''503 Service Unavailable'')))
                          then invalidKeyMessage
                          else failedPrefix @
                            (case message (JsError ''Error: 503 Service Unavailable''
                                             (Some ''503 Service Unavailable''))
                             of None \<Rightarrow> ''undefined'' | Some m \<Rightarrow> m)))"
    by blast
  then have "fst (translateMangaPage sampleService book ''u'' In_depth ?w)
               = Resolved (Some (failedPrefix @ ''503 Service Unavailable''))"
    using ns by simp
  with g p show ?thesis by simp
qed

subsection \<open>The guards of the translation run\<close>

text \<open>
  C4: when the Page Store is empty, or the trimmed context URL is empty, or no credential is
  configured, \<open>translateAll\<close> ends at once with status \<open>error\<close>: the Page Store is unchanged,
  the translation client is not invoked, and the message names the first unmet
  precondition in that order; in particular, with pages loaded and an empty context URL
  the message is the one asking for the URL.
\<close>

theorem translateAll_guards:
  assumes "length (pages w) = 0 \<or> trim (wikiUrl w) = '''' \<or> apiKeySignal g = ''''"
  shows "status (translateAll g w) = Error
    \<and> pages (translateAll g w) = pages w
    \<and> clientCalls (translateAll g w) = clientCalls w
    \<and> translateAll_steps g w = [translateAll g w]
    \<and> errorMessage (translateAll g w) =
        (if length (pages w) = 0 then ''No pages loaded to translate.''
         else if trim (wikiUrl w) = '''' then ''Please provide a Wikipedia or Fandom URL for context.''
         else ''API Key is not configured. Cannot translate.'')"
  using assms by (auto simp: translateAll_def translateAll_steps_def Let_def)

lemma loadedWorld_facts:
  "length (pages loadedWorld) = 3" "wikiUrl loadedWorld = ''''" "clientCalls loadedWorld = []"
  "status loadedWorld = File_loaded"
  unfolding loadedWorld_def by code_simp+

theorem translateAll_guards_witness:
  "trim (wikiUrl loadedWorld) = ''''
   \<and> status (translateAll sampleService loadedWorld) = Error
   \<and> clientCalls (translateAll sampleService loadedWorld) = []
   \<and> errorMessage (translateAll sampleService loadedWorld) =
       ''Please provide a Wikipedia or Fandom URL for context.''"
proof -
  have h: "trim (wikiUrl loadedWorld) = ''''" unfolding loadedWorld_facts by code_simp
  show ?thesis
    using translateAll_guards [of loadedWorld sampleService] h
    by (simp add: loadedWorld_facts)
qed

subsection \<open>A run with a failing request\<close>

text \<open>
  C1, evaluated on the three pages of the sample archive with a model that rejects the
  request for page 2: the run ends in \<open>success\<close> and pages 1 and 3 hold their lines, but
  page 2 holds the failure message of the client as its translation, has no error, and
  is counted as translated.
\<close>

theorem translateAll_service_failure_stored_as_translation:
  "map (\<lambda>p. (pageNum p, translation p, error p)) (pages (translateAll sampleService readyWorld))
     = [(1, Some [''English: Hi!'', ''Vietnamese: Chao!''], None),
        (2, Some [''Translation failed. Please check the console for details. Error: 503 Service Unavailable''], None),
        (3, Some [''English: Hi!'', ''Vietnamese: Chao!''], None)]
   \<and> status (translateAll sampleService readyWorld) = Success
   \<and> translatedPageCount (translateAll sampleService readyWorld) = 3
   \<and> errorMessage (translateAll sampleService readyWorld) = ''''"
  by code_simp

subsection \<open>Invariants of the translation run\<close>

lemma pageNum_updates:
  "map pageNum (markTranslating n ps) = map pageNum ps"
  "map pageNum (setTranslation n ls ps) = map pageNum ps"
  "map pageNum (setError n m ps) = map pageNum ps"
  by (simp_all add: markTranslating_def setTranslation_def setError_def)

lemma filter_key_distinct:
  "distinct (map f xs) \<Longrightarrow> length (filter (\<lambda>x. f x = n) xs) \<le> 1"
proof (induction xs)
  case Nil
  show ?case by simp
next
  case (Cons x xs)
  show ?case
  proof (cases "f x = n")
    case True
    with Cons.prems have "n \<notin> f ` set xs" by auto
    then have "filter (\<lambda>x. f x = n) xs = []" by (auto simp: filter_empty_conv)
    with True show ?thesis by simp
  next
    case False
    with Cons show ?thesis by simp
  qed
qed

lemma mark_translating_count:
  "noneTranslating ps \<Longrightarrow>
   length (filter isTranslating (markTranslating n ps)) = length (filter (\<lambda>p. pageNum p = n) ps)"
  unfolding noneTranslating_def by (induction ps) (auto simp: markTranslating_def)

lemma mark_atMostOne:
  "distinct (map pageNum ps) \<Longrightarrow> noneTranslating ps \<Longrightarrow> atMostOneTranslating (markTranslating n ps)"
  unfolding atMostOneTranslating_def
  using mark_translating_count [of ps n] filter_key_distinct [of pageNum ps n] by simp

lemma mark_no_match: "n \<notin> set (map pageNum ps) \<Longrightarrow> markTranslating n ps = ps"
  by (induction ps) (auto simp: markTranslating_def)

lemma noneTranslating_atMostOne: "noneTranslating ps \<Longrightarrow> atMostOneTranslating ps"
proof -
  assume "noneTranslating ps"
  then have "filter isTranslating ps = []" by (auto simp: noneTranslating_def filter_empty_conv)
  then show ?thesis by (simp add: atMostOneTranslating_def)
qed

lemma setTranslation_mark:
  "setTranslation n ls (markTranslating n ps) =
   map (\<lambda>p. if pageNum p = n then p\<lparr>isTranslating := False, error := None, translation := Some ls\<rparr>
             else p) ps"
  by (simp add: markTranslating_def setTranslation_def)

lemma setError_mark:
  "setError n m (markTranslating n ps) =
   map (\<lambda>p. if pageNum p = n then p\<lparr>isTranslating := False, error := Some m\<rparr> else p) ps"
  by (simp add: markTranslating_def setError_def)

lemma outcome_pageNums:
  "outcomePages n (markTranslating n ps) ps2 \<Longrightarrow> map pageNum ps2 = map pageNum ps"
  unfolding outcomePages_def by (auto simp: pageNum_updates)

lemma outcome_noneTranslating:
  assumes "noneTranslating ps" and "outcomePages n (markTranslating n ps) ps2"
  shows "noneTranslating ps2"
proof -
  from assms(2) consider (t) ls where "ps2 = setTranslation n ls (markTranslating n ps)"
    | (e) m where "ps2 = setError n m (markTranslating n ps)"
    | (u) "ps2 = markTranslating n ps" "n \<notin> set (map pageNum (markTranslating n ps))"
    unfolding outcomePages_def by blast
  then show ?thesis
  proof cases
    case t
    show ?thesis unfolding t setTranslation_mark using assms(1) by (auto simp: noneTranslating_def)
  next
    case e
    show ?thesis unfolding e setError_mark using assms(1) by (auto simp: noneTranslating_def)
  next
    case u
    from u(2) have "n \<notin> set (map pageNum ps)" by (simp add: pageNum_updates)
    then show ?thesis unfolding u(1) using assms(1) by (simp add: mark_no_match)
  qed
qed

lemma outcome_other_pages:
  assumes "outcomePages n (markTranslating n ps) ps2" and "p' \<in> set ps2" and "pageNum p' \<noteq> n"
  shows "p' \<in> set ps"
proof -
  from assms(1) consider (t) ls where "ps2 = setTranslation n ls (markTranslating n ps)"
    | (e) m where "ps2 = setError n m (markTranslating n ps)"
    | (u) "ps2 = markTranslating n ps" "n \<notin> set (map pageNum (markTranslating n ps))"
    unfolding outcomePages_def by blast
  then show ?thesis
  proof cases
    case t
    from assms(2) obtain p where p: "p \<in> set ps"
      and eq: "p' = (if pageNum p = n then p\<lparr>isTranslating := False, error := None, translation := Some ls\<rparr> else p)"
      unfolding t setTranslation_mark by auto
    show ?thesis
    proof (cases "pageNum p = n")
      case True
      with eq have "pageNum p' = n" by simp
      with assms(3) show ?thesis by simp
    next
      case False
      with eq p show ?thesis by simp
    qed
  next
    case e
    from assms(2) obtain p where p: "p \<in> set ps"
      and eq: "p' = (if pageNum p = n then p\<lparr>isTranslating := False, error := Some m\<rparr> else p)"
      unfolding e setError_mark by auto
    show ?thesis
    proof (cases "pageNum p = n")
      case True
      with eq have "pageNum p' = n" by simp
      with assms(3) show ?thesis by simp
    next
      case False
      with eq p show ?thesis by simp
    qed
  next
    case u
    from u(2) have "n \<notin> set (map pageNum ps)" by (simp add: pageNum_updates)
    then have "markTranslating n ps = ps" by (rule mark_no_match)
    with u(1) assms(2) show ?thesis by simp
  qed
qed

lemma mark_exclusive: "allExclusive ps \<Longrightarrow> allExclusive (markTranslating n ps)"
  by (auto simp: allExclusive_def markTranslating_def exclusiveOutcome_def)

lemma outcome_exclusive:
  assumes "allExclusive ps" and "\<forall>p \<in> set ps. pageNum p = n \<longrightarrow> translation p = None"
    and "outcomePages n (markTranslating n ps) ps2"
  shows "allExclusive ps2"
proof -
  from assms(3) consider (t) ls where "ps2 = setTranslation n ls (markTranslating n ps)"
    | (e) m where "ps2 = setError n m (markTranslating n ps)"
    | (u) "ps2 = markTranslating n ps"
    unfolding outcomePages_def by blast
  then show ?thesis
  proof cases
    case t
    show ?thesis unfolding t setTranslation_mark
      using assms(1) by (auto simp: allExclusive_def exclusiveOutcome_def)
  next
    case e
    show ?thesis unfolding e setError_mark
      using assms(1,2) by (auto simp: allExclusive_def exclusiveOutcome_def)
  next
    case u
    show ?thesis unfolding u using mark_exclusive [OF assms(1)] .
  qed
qed

lemma outcome_untouched:
  assumes "untouched (page # rest) ps" and "pageNum page \<notin> pageNum ` set rest"
    and "outcomePages (pageNum page) (markTranslating (pageNum page) ps) ps2"
  shows "untouched rest ps2"
  unfolding untouched_def
proof (intro ballI impI)
  fix p' assume p': "p' \<in> set ps2" and r: "pageNum p' \<in> pageNum ` set rest"
  from r assms(2) have "pageNum p' \<noteq> pageNum page" by auto
  from outcome_other_pages [OF assms(3) p' this] have "p' \<in> set ps" .
  with assms(1) r show "translation p' = None" by (simp add: untouched_def)
qed


lemma translateMangaPage_pages:
  "pages (snd (translateMangaPage g f url mode w)) = pages w"
  by (simp add: translateMangaPage_def Let_def
        split: option.splits async.splits GenResult.splits rejection.splits)

lemma onCatch_pages:
  "map pages (onCatch page e w2) =
   [setError (pageNum page) (messageOr e) (pages w2), setError (pageNum page) (messageOr e) (pages w2)]"
  by (simp add: onCatch_def Let_def)

text \<open>The Page Store along one iteration.\<close>

lemma translatePage_shape:
  "\<exists>ps2. outcomePages (pageNum page) (markTranslating (pageNum page) (pages w)) ps2
     \<and> map pages (fst (translatePage g url mode page w)) =
         (if snd (translatePage g url mode page w)
          then [markTranslating (pageNum page) (pages w), markTranslating (pageNum page) (pages w),
                ps2, ps2]
          else [markTranslating (pageNum page) (pages w), markTranslating (pageNum page) (pages w)])"
proof -
  let ?n = "pageNum page"
  let ?ps1 = "markTranslating ?n (pages w)"
  let ?w1 = "w\<lparr>pages := ?ps1\<rparr>"
  let ?c = "translateMangaPage g (pageFile page) url mode ?w1"
  have p2: "pages (snd ?c) = ?ps1"
    using translateMangaPage_pages [of g "pageFile page" url mode ?w1] by simp
  show ?thesis
  proof (cases "fst ?c")
    case Pending
    have "outcomePages ?n ?ps1 (setError ?n [] ?ps1)" unfolding outcomePages_def by blast
    moreover have "translatePage g url mode page w = ([?w1, snd ?c], False)"
      using Pending by (simp add: translatePage_def Let_def split_beta)
    ultimately show ?thesis using p2 by auto
  next
    case (Thrown e)
    have "outcomePages ?n ?ps1 (setError ?n (messageOr e) ?ps1)" unfolding outcomePages_def by blast
    moreover have "translatePage g url mode page w = ([?w1, snd ?c] @ onCatch page e (snd ?c), True)"
      using Thrown by (simp add: translatePage_def Let_def split_beta)
    ultimately show ?thesis using p2 by (auto simp: onCatch_pages)
  next
    case (Resolved r)
    show ?thesis
    proof (cases r)
      case (Some resultText)
      have "outcomePages ?n ?ps1 (setTranslation ?n (resultLines resultText) ?ps1)"
        unfolding outcomePages_def by blast
      moreover have "map pages (fst (translatePage g url mode page w)) =
              [?ps1, ?ps1, setTranslation ?n (resultLines resultText) ?ps1,
               setTranslation ?n (resultLines resultText) ?ps1]
            \<and> snd (translatePage g url mode page w)"
        using Resolved Some p2 by (simp add: translatePage_def Let_def split_beta)
      ultimately show ?thesis by auto
    next
      case None
      show ?thesis
      proof (cases "?n \<in> set (map pageNum ?ps1)")
        case True
        let ?e = "new_TypeError ''Cannot read properties of undefined (reading 'split')''"
        have "outcomePages ?n ?ps1 (setError ?n (messageOr ?e) ?ps1)"
          unfolding outcomePages_def by blast
        moreover have "translatePage g url mode page w =
                ([?w1, snd ?c] @ onCatch page ?e (snd ?c), True)"
          using Resolved None True p2 by (simp add: translatePage_def Let_def split_beta)
        ultimately show ?thesis using p2 by (auto simp: onCatch_pages)
      next
        case False
        have "outcomePages ?n ?ps1 ?ps1" unfolding outcomePages_def using False by blast
        moreover have "map pages (fst (translatePage g url mode page w)) = [?ps1, ?ps1, ?ps1, ?ps1]
            \<and> snd (translatePage g url mode page w)"
          using Resolved None False p2 by (simp add: translatePage_def Let_def split_beta)
        ultimately show ?thesis by auto
      qed
    qed
  qed
qed

lemma translatePage_nonempty: "fst (translatePage g url mode page w) \<noteq> []"
  using translatePage_shape [of page w g url mode] by (auto split: if_splits)

lemma translateLoop_Cons:
  "translateLoop g url mode (page # rest) w =
     (if snd (translatePage g url mode page w) then
        (fst (translatePage g url mode page w)
           @ fst (translateLoop g url mode rest (last (fst (translatePage g url mode page w)))),
         snd (translateLoop g url mode rest (last (fst (translatePage g url mode page w)))))
      else (fst (translatePage g url mode page w), False))"
  by (simp add: split_beta Let_def)


lemma translateLoop_atMostOne:
  "distinct (map pageNum (pages w)) \<Longrightarrow> noneTranslating (pages w) \<Longrightarrow>
   \<forall>s \<in> set (fst (translateLoop g url mode rest w)). atMostOneTranslating (pages s)"
proof (induction rest arbitrary: w)
  case Nil
  show ?case by simp
next
  case (Cons page rest)
  let ?tp = "translatePage g url mode page w"
  let ?ps1 = "markTranslating (pageNum page) (pages w)"
  from translatePage_shape [of page w g url mode] obtain ps2
    where o: "outcomePages (pageNum page) ?ps1 ps2"
      and m: "map pages (fst ?tp) = (if snd ?tp then [?ps1, ?ps1, ps2, ps2] else [?ps1, ?ps1])"
    by blast
  have a1: "atMostOneTranslating ?ps1" using mark_atMostOne [OF Cons.prems] .
  have n2: "noneTranslating ps2" using outcome_noneTranslating [OF Cons.prems(2) o] .
  have a2: "atMostOneTranslating ps2" using noneTranslating_atMostOne [OF n2] .
  have "\<forall>ps \<in> set (map pages (fst ?tp)). atMostOneTranslating ps"
    unfolding m using a1 a2 by simp
  then have steps: "\<forall>s \<in> set (fst ?tp). atMostOneTranslating (pages s)" by simp
  show ?case
  proof (cases "snd ?tp")
    case False
    then show ?thesis unfolding translateLoop_Cons using steps by simp
  next
    case True
    have "pages (last (fst ?tp)) = last (map pages (fst ?tp))"
      by (simp add: last_map translatePage_nonempty)
    also have "\<dots> = ps2" unfolding m using True by simp
    finally have l: "pages (last (fst ?tp)) = ps2" .
    have d: "distinct (map pageNum (pages (last (fst ?tp))))"
      unfolding l outcome_pageNums [OF o] using Cons.prems(1) .
    have n: "noneTranslating (pages (last (fst ?tp)))" unfolding l using n2 .
    from Cons.IH [OF d n] steps True show ?thesis unfolding translateLoop_Cons by auto
  qed
qed

lemma translateLoop_exclusive:
  "allExclusive (pages w) \<Longrightarrow> untouched rest (pages w) \<Longrightarrow> distinct (map pageNum rest) \<Longrightarrow>
   \<forall>s \<in> set (fst (translateLoop g url mode rest w)). allExclusive (pages s)"
proof (induction rest arbitrary: w)
  case Nil
  show ?case by simp
next
  case (Cons page rest)
  let ?tp = "translatePage g url mode page w"
  let ?ps1 = "markTranslating (pageNum page) (pages w)"
  from translatePage_shape [of page w g url mode] obtain ps2
    where o: "outcomePages (pageNum page) ?ps1 ps2"
      and m: "map pages (fst ?tp) = (if snd ?tp then [?ps1, ?ps1, ps2, ps2] else [?ps1, ?ps1])"
    by blast
  from Cons.prems(3) have nr: "pageNum page \<notin> pageNum ` set rest"
    and dr: "distinct (map pageNum rest)" by auto
  from Cons.prems(2) have tn: "\<forall>p \<in> set (pages w). pageNum p = pageNum page \<longrightarrow> translation p = None"
    by (simp add: untouched_def)
  have e1: "allExclusive ?ps1" using mark_exclusive [OF Cons.prems(1)] .
  have e2: "allExclusive ps2" using outcome_exclusive [OF Cons.prems(1) tn o] .
  have u2: "untouched rest ps2" using outcome_untouched [OF Cons.prems(2) nr o] .
  have "\<forall>ps \<in> set (map pages (fst ?tp)). allExclusive ps"
    unfolding m using e1 e2 by simp
  then have steps: "\<forall>s \<in> set (fst ?tp). allExclusive (pages s)" by simp
  show ?case
  proof (cases "snd ?tp")
    case False
    then show ?thesis unfolding translateLoop_Cons using steps by simp
  next
    case True
    have "pages (last (fst ?tp)) = last (map pages (fst ?tp))"
      by (simp add: last_map translatePage_nonempty)
    also have "\<dots> = ps2" unfolding m using True by simp
    finally have l: "pages (last (fst ?tp)) = ps2" .
    have e: "allExclusive (pages (last (fst ?tp)))" unfolding l using e2 .
    have u: "untouched rest (pages (last (fst ?tp)))" unfolding l using u2 .
    from Cons.IH [OF e u dr] steps True show ?thesis unfolding translateLoop_Cons by auto
  qed
qed

lemma translateAll_steps_guarded:
  "length (pages w) = 0 \<or> trim (wikiUrl w) = [] \<or> apiKeySignal g = [] \<Longrightarrow>
   \<exists>w'. translateAll_steps g w = [w'] \<and> pages w' = pages w"
  by (auto simp: translateAll_steps_def Let_def)

lemma translateAll_steps_run:
  assumes "\<not> (length (pages w) = 0 \<or> trim (wikiUrl w) = [] \<or> apiKeySignal g = [])"
  shows "\<exists>w0 loop. pages w0 = pages w
           \<and> loop = fst (translateLoop g (trim (wikiUrl w)) (translationMode w) (pages w) w0)
           \<and> (translateAll_steps g w = w0 # loop
               \<or> translateAll_steps g w = (w0 # loop) @ [(last (w0 # loop))\<lparr>status := Success\<rparr>])"
proof -
  let ?w0 = "w\<lparr>status := Translating, translatedPageCount := 0, errorMessage := []\<rparr>"
  let ?l = "translateLoop g (trim (wikiUrl w)) (translationMode w) (pages w) ?w0"
  have "translateAll_steps g w =
          (if snd ?l then (?w0 # fst ?l) @ [(last (?w0 # fst ?l))\<lparr>status := Success\<rparr>]
           else ?w0 # fst ?l)"
    using assms by (simp add: translateAll_steps_def Let_def split_beta)
  then show ?thesis by (intro exI [of _ ?w0] exI [of _ "fst ?l"]) auto
qed

lemma translateAll_steps_property:
  assumes "P (pages w)"
    and "\<And>w0. pages w0 = pages w \<Longrightarrow>
          \<forall>s \<in> set (fst (translateLoop g (trim (wikiUrl w)) (translationMode w) (pages w) w0)).
            P (pages s)"
  shows "\<forall>s \<in> set (translateAll_steps g w). P (pages s)"
proof (cases "length (pages w) = 0 \<or> trim (wikiUrl w) = [] \<or> apiKeySignal g = []")
  case True
  from translateAll_steps_guarded [OF True] assms(1) show ?thesis by auto
next
  case False
  from translateAll_steps_run [OF False] obtain w0 loop where p0: "pages w0 = pages w"
    and l: "loop = fst (translateLoop g (trim (wikiUrl w)) (translationMode w) (pages w) w0)"
    and e: "translateAll_steps g w = w0 # loop
            \<or> translateAll_steps g w = (w0 # loop) @ [(last (w0 # loop))\<lparr>status := Success\<rparr>]"
    by blast
  have all: "\<forall>s \<in> set (w0 # loop). P (pages s)"
    using assms(2) [OF p0] assms(1) p0 l by simp
  have "last (w0 # loop) \<in> set (w0 # loop)" by (rule last_in_set) simp
  with all have "P (pages (last (w0 # loop)))" by blast
  then have "P (pages ((last (w0 # loop))\<lparr>status := Success\<rparr>))" by simp
  with all e show ?thesis by auto
qed

text \<open>
  C7, as amended: in a run of \<open>translateAll\<close> followed on its own, over pages with distinct
  numbers none of which is marked as translating at the start, every state the run goes
  through has at most one page marked as translating; and when no page holds lines at
  the start, as after ingestion, every state has no page with both lines and an error.
\<close>

theorem translateAll_invariants:
  assumes "distinct (map pageNum (pages w))"
    and "\<forall>p \<in> set (pages w). \<not> isTranslating p"
  shows "\<forall>s \<in> set (translateAll_steps g w).
           atMostOneTranslating (pages s)
           \<and> ((\<forall>p \<in> set (pages w). translation p = None) \<longrightarrow>
                (\<forall>p \<in> set (pages s). exclusiveOutcome p))"
proof -
  have n: "noneTranslating (pages w)" using assms(2) by (simp add: noneTranslating_def)
  have a: "\<forall>s \<in> set (translateAll_steps g w). atMostOneTranslating (pages s)"
  proof (rule translateAll_steps_property)
    show "atMostOneTranslating (pages w)" using noneTranslating_atMostOne [OF n] .
  next
    fix w0 :: World assume p0: "pages w0 = pages w"
    show "\<forall>s \<in> set (fst (translateLoop g (trim (wikiUrl w)) (translationMode w) (pages w) w0)).
            atMostOneTranslating (pages s)"
      using translateLoop_atMostOne [of w0 g] assms(1) n unfolding p0 by blast
  qed
  have b: "\<forall>s \<in> set (translateAll_steps g w). allExclusive (pages s)"
    if t: "\<forall>p \<in> set (pages w). translation p = None"
  proof (rule translateAll_steps_property)
    show "allExclusive (pages w)" using t by (simp add: allExclusive_def exclusiveOutcome_def)
  next
    fix w0 :: World assume p0: "pages w0 = pages w"
    have e: "allExclusive (pages w0)"
      unfolding p0 using t by (simp add: allExclusive_def exclusiveOutcome_def)
    have u: "untouched (pages w) (pages w0)" unfolding p0 using t by (simp add: untouched_def)
    show "\<forall>s \<in> set (fst (translateLoop g (trim (wikiUrl w)) (translationMode w) (pages w) w0)).
            allExclusive (pages s)"
      using translateLoop_exclusive [OF e u assms(1)] .
  qed
  show ?thesis using a b by (auto simp: allExclusive_def)
qed


theorem translateAll_invariants_witness:
  "distinct (map pageNum (pages readyWorld))
   \<and> map isTranslating (pages readyWorld) = [False, False, False]
   \<and> map translation (pages readyWorld) = [None, None, None]
   \<and> length (translateAll_steps sampleService readyWorld) = 14
   \<and> map isTranslating (pages (translateAll_steps sampleService readyWorld ! 5)) = [False, True, False]
   \<and> atMostOneTranslating (pages (translateAll_steps sampleService readyWorld ! 5))
   \<and> exclusiveOutcome (pages (translateAll_steps sampleService readyWorld ! 5) ! 1)"
proof -
  let ?steps = "translateAll_steps sampleService readyWorld"
  have d: "distinct (map pageNum (pages readyWorld))" by code_simp
  have i: "map isTranslating (pages readyWorld) = [False, False, False]" by code_simp
  have x: "map translation (pages readyWorld) = [None, None, None]" by code_simp
  have f: "\<forall>p \<in> set (pages readyWorld). \<not> isTranslating p" by code_simp
  have h: "\<forall>p \<in> set (pages readyWorld). translation p = None" by code_simp
  have n: "length ?steps = 14" by code_simp
  have t: "map isTranslating (pages (?steps ! 5)) = [False, True, False]" by code_simp
  have m: "?steps ! 5 \<in> set ?steps" using n by (simp add: nth_mem)
  have l: "length (pages (?steps ! 5)) = 3" using arg_cong [OF t, of length] by simp
  have p: "pages (?steps ! 5) ! 1 \<in> set (pages (?steps ! 5))" using l by (simp add: nth_mem)
  from translateAll_invariants [OF d f, of sampleService] h m p
  have "atMostOneTranslating (pages (?steps ! 5))
        \<and> exclusiveOutcome (pages (?steps ! 5) ! 1)" by blast
  with d i x n t show ?thesis by blast
qed

text \<open>
  C7 as stated fails in a second run. After a first run that gave every page its lines,
  the state meets what the claim asks of a run at its start; in the second run the
  response for page 2 has no text, the \<^verbatim>\<open>catch\<close> stores an error on page 2, and page 2 keeps
  the lines of the first run: it ends with both lines and an error.
\<close>

theorem translateAll_rerun_counterexample:
  "status translatedWorld = Success
   \<and> distinct (map pageNum (pages translatedWorld))
   \<and> map isTranslating (pages translatedWorld) = [False, False, False]
   \<and> map exclusiveOutcome (pages translatedWorld) = [True, True, True]
   \<and> status (translateAll blockedService translatedWorld) = Success
   \<and> map translation (pages (translateAll blockedService translatedWorld))
       = [Some [''English: Hi!'', ''Vietnamese: Chao!''], Some [''English: Hi!'', ''Vietnamese: Chao!''],
          Some [''English: Hi!'', ''Vietnamese: Chao!'']]
   \<and> map error (pages (translateAll blockedService translatedWorld))
       = [None, Some ''Cannot read properties of undefined (reading 'split')'', None]
   \<and> map exclusiveOutcome (pages (translateAll blockedService translatedWorld)) = [True, False, True]"
  by code_simp

end
